theory Spec2Isabelle
  imports Complex_Main
begin

section \<open>JavaScript values\<close>

text \<open>
  A JavaScript number is a finite number, NaN or one of the two infinities.  Finite numbers
  are ideal reals: the rounding of IEEE doubles and the sign of zero are not modelled.  The
  overflow of a numeric literal to an infinity is modelled where the code converts text to a
  number (\<open>double_of\<close> below).
\<close>

datatype jsnum = Fin real | NaN | PInf | NInf

text \<open>
  Values as \<open>JSON.parse\<close> and the handler build them.  An object is the list of its own
  properties in the order of their creation, which is the order \<open>Object.entries\<close> enumerates
  them in, but for keys that are array indices: the engine lists those first, and that
  reordering is not modelled.
\<close>

datatype jsval =
    JUndefined
  | JNull
  | JBool bool
  | JNum jsnum
  | JStr string
  | JArr "jsval list"
  | JObj "(string \<times> jsval) list"

text \<open>
  What is thrown: a \<open>TypeError\<close> or a \<open>RangeError\<close> of the engine, or the failure of the request
  to the model.
\<close>

datatype error = TypeError | RangeError | CollaboratorError

text \<open>
  The parameters of the model.  Two are the primitive conversions of the engine that the
  code reaches only through implicit coercion of ill-typed fields.  The third is the memory
  of the process: \<open>heap_room\<close> is the number of frames that the array of the synthesizer can
  take beyond its first; a \<open>push\<close> onto an array that holds more exhausts the heap, the
  process dies and the request is never answered.
\<close>

record engine =
  StringToNumber :: "string \<Rightarrow> jsnum"
  NumberToString :: "jsnum \<Rightarrow> string"
  heap_room :: nat

text \<open>The greatest length of an array, \<open>2^32 - 1\<close>.\<close>

definition max_array_length :: nat where
  "max_array_length = 4294967295"

definition bindE :: "error + 'a \<Rightarrow> ('a \<Rightarrow> error + 'b) \<Rightarrow> error + 'b" where
  "bindE r f = (case r of Inl e \<Rightarrow> Inl e | Inr v \<Rightarrow> f v)"

fun truthy :: "jsval \<Rightarrow> bool" where
  "truthy JUndefined = False"
| "truthy JNull = False"
| "truthy (JBool b) = b"
| "truthy (JNum (Fin r)) = (r \<noteq> 0)"
| "truthy (JNum NaN) = False"
| "truthy (JNum PInf) = True"
| "truthy (JNum NInf) = True"
| "truthy (JStr s) = (s \<noteq> [])"
| "truthy (JArr xs) = True"
| "truthy (JObj kvs) = True"

text \<open>\<open>a || b\<close>\<close>

definition js_or :: "jsval \<Rightarrow> jsval \<Rightarrow> jsval" where
  "js_or a b = (if truthy a then a else b)"

text \<open>
  \<open>v.k\<close> for the property names the code reads (\<open>mode\<close>, \<open>keyframes\<close>, \<open>fixedFps\<close>,
  \<open>dtMs\<close>, \<open>frames\<close>, \<open>timeMs\<close>, \<open>params\<close>, \<open>set\<close>, \<open>startMs\<close>, \<open>endMs\<close>, \<open>text\<close>): none
  of them is inherited from a prototype, so the read gives the own property of an object,
  \<open>undefined\<close> on any other value, and raises on \<open>null\<close> and \<open>undefined\<close>.
\<close>

fun own :: "(string \<times> jsval) list \<Rightarrow> string \<Rightarrow> jsval" where
  "own kvs k = (case map_of kvs k of None \<Rightarrow> JUndefined | Some v \<Rightarrow> v)"

fun getp :: "jsval \<Rightarrow> string \<Rightarrow> error + jsval" where
  "getp JUndefined k = Inl TypeError"
| "getp JNull k = Inl TypeError"
| "getp (JObj kvs) k = Inr (own kvs k)"
| "getp v k = Inr JUndefined"

text \<open>\<open>v?.k\<close>\<close>

fun getp_opt :: "jsval \<Rightarrow> string \<Rightarrow> jsval" where
  "getp_opt (JObj kvs) k = own kvs k"
| "getp_opt v k = JUndefined"

text \<open>\<open>o.k = v\<close> on a plain object: an existing property keeps its place, a new one is added last.\<close>

fun setp :: "(string \<times> jsval) list \<Rightarrow> string \<Rightarrow> jsval \<Rightarrow> (string \<times> jsval) list" where
  "setp [] k v = [(k, v)]"
| "setp ((k', v') # kvs) k v = (if k' = k then (k, v) # kvs else (k', v') # setp kvs k v)"

subsection \<open>Coercions\<close>

fun join :: "string \<Rightarrow> string list \<Rightarrow> string" where
  "join sep [] = []"
| "join sep [s] = s"
| "join sep (s # t # ss) = s @ sep @ join sep (t # ss)"

fun mapE :: "('a \<Rightarrow> error + 'b) \<Rightarrow> 'a list \<Rightarrow> error + 'b list" where
  "mapE f [] = Inr []"
| "mapE f (x # xs) = bindE (f x) (\<lambda>y. bindE (mapE f xs) (\<lambda>ys. Inr (y # ys)))"

text \<open>
  \<open>ToString\<close>.  A parsed object has no callable property of its own, so an own \<open>toString\<close>
  makes the conversion raise; otherwise \<open>Object.prototype.toString\<close> answers.  An array is
  joined with commas, \<open>null\<close> and \<open>undefined\<close> elements giving the empty string.
\<close>

fun ToString :: "engine \<Rightarrow> jsval \<Rightarrow> error + string"
  and ToStringElems :: "engine \<Rightarrow> jsval list \<Rightarrow> error + string list" where
  "ToString E JUndefined = Inr ''undefined''"
| "ToString E JNull = Inr ''null''"
| "ToString E (JBool b) = Inr (if b then ''true'' else ''false'')"
| "ToString E (JNum n) = Inr (NumberToString E n)"
| "ToString E (JStr s) = Inr s"
| "ToString E (JArr xs) = bindE (ToStringElems E xs) (\<lambda>ss. Inr (join '','' ss))"
| "ToString E (JObj kvs) =
     (if ''toString'' \<in> set (map fst kvs) then Inl TypeError else Inr ''[object Object]'')"
| "ToStringElems E [] = Inr []"
| "ToStringElems E (x # xs) =
     bindE (if x = JUndefined \<or> x = JNull then Inr [] else ToString E x)
       (\<lambda>s. bindE (ToStringElems E xs) (\<lambda>ss. Inr (s # ss)))"

text \<open>
  \<open>ToNumber\<close>: objects and arrays go through their string, and the string of an object,
  \<open>[object Object]\<close>, is no numeric literal.
\<close>

fun ToNumber :: "engine \<Rightarrow> jsval \<Rightarrow> error + jsnum" where
  "ToNumber E JUndefined = Inr NaN"
| "ToNumber E JNull = Inr (Fin 0)"
| "ToNumber E (JBool b) = Inr (Fin (if b then 1 else 0))"
| "ToNumber E (JNum n) = Inr n"
| "ToNumber E (JStr s) = Inr (StringToNumber E s)"
| "ToNumber E (JArr xs) = bindE (ToString E (JArr xs)) (\<lambda>s. Inr (StringToNumber E s))"
| "ToNumber E (JObj kvs) = bindE (ToString E (JObj kvs)) (\<lambda>s. Inr NaN)"

subsection \<open>Arithmetic of \<open>Math\<close>\<close>

fun js_le :: "jsnum \<Rightarrow> jsnum \<Rightarrow> bool" where
  "js_le NaN y = False"
| "js_le x NaN = False"
| "js_le NInf y = True"
| "js_le x PInf = True"
| "js_le (Fin a) (Fin b) = (a \<le> b)"
| "js_le x y = False"

fun js_lt :: "jsnum \<Rightarrow> jsnum \<Rightarrow> bool" where
  "js_lt NaN y = False"
| "js_lt x NaN = False"
| "js_lt (Fin a) (Fin b) = (a < b)"
| "js_lt NInf NInf = False"
| "js_lt NInf y = True"
| "js_lt PInf y = False"
| "js_lt (Fin a) PInf = True"
| "js_lt (Fin a) NInf = False"

definition Math_max :: "jsnum \<Rightarrow> jsnum \<Rightarrow> jsnum" where
  "Math_max a b = (if a = NaN \<or> b = NaN then NaN else if js_le a b then b else a)"

definition Math_min :: "jsnum \<Rightarrow> jsnum \<Rightarrow> jsnum" where
  "Math_min a b = (if a = NaN \<or> b = NaN then NaN else if js_le a b then a else b)"

text \<open>\<open>Math.round\<close> rounds to the nearest integer, a half upwards.\<close>

fun Math_round :: "jsnum \<Rightarrow> jsnum" where
  "Math_round (Fin r) = Fin (of_int \<lfloor>r + 1 / 2\<rfloor>)"
| "Math_round n = n"

section \<open>Parameter definitions\<close>

text \<open>
  One item of \<open>parseCatalog\<close>: \<open>{ id, min, max, default, isToggleLike, note }\<close>.  A bound is
  infinite when its literal overflows; the default is finite, the code replacing any other
  by 0.
\<close>

record pdef =
  def_id :: string
  def_min :: jsnum
  def_max :: jsnum
  def_default :: real
  isToggleLike :: bool
  def_note :: string

section \<open>clampTimeline\<close>

text \<open>\<open>clamp(v, a, b) = Math.max(a, Math.min(b, v))\<close>\<close>

definition clamp :: "jsnum \<Rightarrow> jsnum \<Rightarrow> jsnum \<Rightarrow> jsnum" where
  "clamp v a b = Math_max a (Math_min b v)"

text \<open>\<open>new Map(defs.map(d => [d.id, d]))\<close> and its \<open>get\<close>: a later definition replaces an earlier one.\<close>

definition byId :: "pdef list \<Rightarrow> string \<Rightarrow> pdef option" where
  "byId defs = map_of (rev (map (\<lambda>d. (def_id d, d)) defs))"

text \<open>The decimal key of an array index.\<close>

definition digit_char :: "nat \<Rightarrow> char" where
  "digit_char d = char_of (48 + d)"

function index_key :: "nat \<Rightarrow> string" where
  "index_key n = (if n < 10 then [digit_char n] else index_key (n div 10) @ [digit_char (n mod 10)])"
  by pat_completeness auto
termination
  by (relation "measure id") auto

text \<open>\<open>Object.entries(obj || {})\<close>\<close>

fun entries :: "jsval \<Rightarrow> (string \<times> jsval) list" where
  "entries (JObj kvs) = kvs"
| "entries (JArr xs) = zip (map index_key [0..<length xs]) xs"
| "entries (JStr s) = zip (map index_key [0..<length s]) (map (\<lambda>c. JStr [c]) s)"
| "entries v = []"

text \<open>
  \<open>out[k] = vv\<close> with a number \<open>vv\<close>: the key \<open>__proto__\<close> reaches the prototype setter, which
  ignores a number, and \<open>out\<close> gets no property.
\<close>

definition assign :: "(string \<times> jsval) list \<Rightarrow> string \<Rightarrow> jsval \<Rightarrow> (string \<times> jsval) list" where
  "assign out k v = (if k = ''__proto__'' then out else setp out k v)"

fun clampMap_loop :: "pdef list \<Rightarrow> (string \<times> jsval) list \<Rightarrow> (string \<times> jsval) list
    \<Rightarrow> (string \<times> jsval) list" where
  "clampMap_loop defs [] out = out"
| "clampMap_loop defs ((k, v) # es) out =
     (case byId defs k of
        None \<Rightarrow> clampMap_loop defs es out
      | Some d \<Rightarrow>
          (case v of
             JNum n \<Rightarrow>
               (let vv = clamp n (def_min d) (def_max d);
                    vv = (if isToggleLike d then Math_round vv else vv)
                in clampMap_loop defs es (assign out k (JNum vv)))
           | _ \<Rightarrow> clampMap_loop defs es out))"

definition clampMap :: "pdef list \<Rightarrow> jsval \<Rightarrow> jsval" where
  "clampMap defs obj = JObj (clampMap_loop defs (entries (js_or obj (JObj []))) [])"

text \<open>The callback of \<open>keyframes.map\<close>.\<close>

definition clampKeyframe :: "engine \<Rightarrow> pdef list \<Rightarrow> jsval \<Rightarrow> error + jsval" where
  "clampKeyframe E defs kf =
     bindE (getp kf ''timeMs'') (\<lambda>tm.
     bindE (ToNumber E (js_or tm (JNum (Fin 0)))) (\<lambda>n.
     bindE (getp kf ''params'') (\<lambda>p.
     bindE (if truthy p then Inr p else getp kf ''set'') (\<lambda>ps.
       Inr (JObj [(''timeMs'', JNum (Math_max (Fin 0) (Math_round n))),
                  (''params'', clampMap defs (js_or ps (JObj [])))])))))"

text \<open>\<open>o.k = v\<close> on a value that is an object.\<close>

fun put :: "jsval \<Rightarrow> string \<Rightarrow> jsval \<Rightarrow> jsval" where
  "put (JObj kvs) k v = JObj (setp kvs k v)"
| "put t k v = t"

text \<open>
  \<open>clampTimeline\<close> writes into the object it is given.  \<open>clampTimeline_run\<close> gives the content
  of that object when the call ends, and the error if the call raised.  Past the first
  test the timeline is truthy, so that reading its properties cannot raise; a value whose
  \<open>mode\<close> is a string is an object, and so is a value with a truthy \<open>frames\<close>.
\<close>

definition clampTimeline_run :: "engine \<Rightarrow> jsval \<Rightarrow> pdef list \<Rightarrow> jsval \<times> error option" where
  "clampTimeline_run E timeline defs =
     (if \<not> truthy timeline then (timeline, None)
      else if getp_opt timeline ''mode'' = JStr ''keyframes'' then
        (case js_or (getp_opt timeline ''keyframes'') (JArr []) of
           JArr kfs \<Rightarrow>
             (case mapE (clampKeyframe E defs) kfs of
                Inl e \<Rightarrow> (timeline, Some e)
              | Inr kfs' \<Rightarrow> (put timeline ''keyframes'' (JArr kfs'), None))
         | _ \<Rightarrow> (timeline, Some TypeError))
      else if getp_opt timeline ''mode'' = JStr ''fixed_fps''
              \<and> truthy (getp_opt (getp_opt timeline ''fixedFps'') ''frames'') then
        (let fixedFps = getp_opt timeline ''fixedFps'' in
         case ToNumber E (js_or (getp_opt fixedFps ''dtMs'') (JNum (Fin (1000 / 60)))) of
           Inl e \<Rightarrow> (timeline, Some e)
         | Inr n \<Rightarrow>
             (let dtMs = Math_max (Fin 8) (Math_round n);
                  fixedFps1 = put fixedFps ''dtMs'' (JNum dtMs)
              in case getp_opt fixedFps ''frames'' of
                   JArr fs \<Rightarrow>
                     (put timeline ''fixedFps''
                        (put fixedFps1 ''frames'' (JArr (map (clampMap defs) fs))), None)
                 | _ \<Rightarrow> (put timeline ''fixedFps'' fixedFps1, Some TypeError)))
      else (timeline, None))"

text \<open>The value-level reading: what the call returns, or the error it raises.\<close>

definition clampTimeline :: "engine \<Rightarrow> jsval \<Rightarrow> pdef list \<Rightarrow> error + jsval" where
  "clampTimeline E timeline defs =
     (case clampTimeline_run E timeline defs of
        (t, None) \<Rightarrow> Inr t
      | (t, Some e) \<Rightarrow> Inl e)"

text \<open>
  The reference-level reading: the timeline is the object at address \<open>a\<close> of the store; the
  call updates that object and returns the same reference.
\<close>

type_synonym store = "nat \<Rightarrow> jsval"

definition clampTimeline_ref :: "engine \<Rightarrow> store \<Rightarrow> nat \<Rightarrow> pdef list \<Rightarrow> store \<times> (error + nat)" where
  "clampTimeline_ref E h a defs =
     (case clampTimeline_run E (h a) defs of
        (t, None) \<Rightarrow> (h(a := t), Inr a)
      | (t, Some e) \<Rightarrow> (h(a := t), Inl e))"

section \<open>Timelines of the two recognized shapes\<close>

text \<open>
  A keyframe as the data model has it: an object (anything but \<open>null\<close> and \<open>undefined\<close> reads
  the same way) whose \<open>timeMs\<close> is a finite number or is absent.
\<close>

definition typed_kf :: "jsval \<Rightarrow> bool" where
  "typed_kf kf = (kf \<noteq> JNull \<and> kf \<noteq> JUndefined \<and>
     (case getp_opt kf ''timeMs'' of JUndefined \<Rightarrow> True | JNum (Fin r) \<Rightarrow> True | _ \<Rightarrow> False))"

text \<open>A number as \<open>JSON.parse\<close> can return it, finite or infinite, or nothing.\<close>

definition num_or_absent :: "jsval \<Rightarrow> bool" where
  "num_or_absent v = (case v of JUndefined \<Rightarrow> True | JNum n \<Rightarrow> n \<noteq> NaN | _ \<Rightarrow> False)"

text \<open>A keyframe whose \<open>timeMs\<close> is such a number.\<close>

definition timed_kf :: "jsval \<Rightarrow> bool" where
  "timed_kf kf = (kf \<noteq> JNull \<and> kf \<noteq> JUndefined \<and> num_or_absent (getp_opt kf ''timeMs''))"

text \<open>
  A timeline of one of the two shapes, with numeric time fields: the mode \<open>keyframes\<close> with
  an array of keyframes (or with none, which the clamp reads as the empty array), or the
  mode \<open>fixed_fps\<close> with an array of frames.  Parameter maps are unconstrained.
\<close>

definition typed_timeline :: "jsval \<Rightarrow> bool" where
  "typed_timeline T =
     (case T of
        JObj kvs \<Rightarrow>
          (if own kvs ''mode'' = JStr ''keyframes'' then
             (case js_or (own kvs ''keyframes'') (JArr []) of
                JArr kfs \<Rightarrow> list_all timed_kf kfs
              | _ \<Rightarrow> False)
           else if own kvs ''mode'' = JStr ''fixed_fps'' then
             (case own kvs ''fixedFps'' of
                JObj fk \<Rightarrow>
                  (case own fk ''frames'' of JArr fs \<Rightarrow> num_or_absent (own fk ''dtMs'') | _ \<Rightarrow> False)
              | _ \<Rightarrow> False)
           else False)
      | _ \<Rightarrow> False)"

text \<open>
  A value that \<open>clampTimeline\<close> hands back as it is: a falsy one, or one whose \<open>mode\<close> is
  neither \<open>keyframes\<close> nor, with truthy \<open>frames\<close>, \<open>fixed_fps\<close>.
\<close>

definition passed_through :: "jsval \<Rightarrow> bool" where
  "passed_through T =
     (\<not> truthy T
      \<or> (getp_opt T ''mode'' \<noteq> JStr ''keyframes''
          \<and> \<not> (getp_opt T ''mode'' = JStr ''fixed_fps''
                 \<and> truthy (getp_opt (getp_opt T ''fixedFps'') ''frames''))))"

text \<open>
  A value \<open>JSON.parse\<close> can return: no \<open>undefined\<close> and no NaN; a literal that overflows parses
  to an infinity.
\<close>

fun is_json :: "jsval \<Rightarrow> bool" where
  "is_json JUndefined = False"
| "is_json JNull = True"
| "is_json (JBool b) = True"
| "is_json (JNum n) = (n \<noteq> NaN)"
| "is_json (JStr s) = True"
| "is_json (JArr xs) = list_all is_json xs"
| "is_json (JObj kvs) = list_all (\<lambda>kv. is_json (snd kv)) kvs"

text \<open>A definition as \<open>parseCatalog\<close> builds it: neither bound is NaN.\<close>

definition def_ok :: "pdef \<Rightarrow> bool" where
  "def_ok d = (def_min d \<noteq> NaN \<and> def_max d \<noteq> NaN)"

subsection \<open>What the clamp is expected to produce\<close>

definition time_of :: "jsval \<Rightarrow> real" where
  "time_of kf = (case getp_opt kf ''timeMs'' of JNum (Fin r) \<Rightarrow> r | _ \<Rightarrow> 0)"

definition time_num :: "jsval \<Rightarrow> jsnum" where
  "time_num kf =
     (case getp_opt kf ''timeMs'' of JNum n \<Rightarrow> (if n = NaN then Fin 0 else n) | _ \<Rightarrow> Fin 0)"

definition params_of :: "jsval \<Rightarrow> jsval" where
  "params_of kf =
     (if truthy (getp_opt kf ''params'') then getp_opt kf ''params'' else getp_opt kf ''set'')"

definition clamped_keyframe :: "pdef list \<Rightarrow> jsval \<Rightarrow> jsval" where
  "clamped_keyframe defs kf =
     JObj [(''timeMs'', JNum (Math_max (Fin 0) (Math_round (time_num kf)))),
           (''params'', clampMap defs (params_of kf))]"

definition dt_num :: "jsval \<Rightarrow> jsnum" where
  "dt_num v =
     (case v of
        JNum n \<Rightarrow> (if n = Fin 0 \<or> n = NaN then Fin (1000 / 60) else n)
      | _ \<Rightarrow> Fin (1000 / 60))"

definition clamped :: "pdef list \<Rightarrow> jsval \<Rightarrow> jsval" where
  "clamped defs T =
     (if getp_opt T ''mode'' = JStr ''keyframes'' then
        (case js_or (getp_opt T ''keyframes'') (JArr []) of
           JArr kfs \<Rightarrow> put T ''keyframes'' (JArr (map (clamped_keyframe defs) kfs))
         | _ \<Rightarrow> T)
      else
        (case getp_opt (getp_opt T ''fixedFps'') ''frames'' of
           JArr fs \<Rightarrow>
             put T ''fixedFps''
               (put (put (getp_opt T ''fixedFps'') ''dtMs''
                       (JNum (Math_max (Fin 8)
                                (Math_round (dt_num (getp_opt (getp_opt T ''fixedFps'') ''dtMs''))))))
                  ''frames'' (JArr (map (clampMap defs) fs)))
         | _ \<Rightarrow> T))"

subsection \<open>The invariant after validation\<close>

text \<open>
  A retained entry: its key has a definition and its value is a number, not NaN.  With
  \<open>min \<le> max\<close>, the value of a continuous parameter lies between the bounds and that of a
  categorical one between the rounded bounds.  The value of a categorical parameter is an
  integer, or it is an infinite bound of the definition.
\<close>

definition integral :: "jsnum \<Rightarrow> bool" where
  "integral n = (case n of Fin r \<Rightarrow> r = of_int \<lfloor>r\<rfloor> | _ \<Rightarrow> False)"

definition value_ok :: "pdef list \<Rightarrow> string \<times> jsval \<Rightarrow> bool" where
  "value_ok defs kv =
     (case byId defs (fst kv) of
        None \<Rightarrow> False
      | Some d \<Rightarrow>
          (case snd kv of
             JNum n \<Rightarrow>
               n \<noteq> NaN \<and>
               (if isToggleLike d then
                  (integral n \<or> ((n = PInf \<or> n = NInf) \<and> (n = def_min d \<or> n = def_max d))) \<and>
                  (js_le (def_min d) (def_max d) \<longrightarrow>
                     js_le (Math_round (def_min d)) n \<and> js_le n (Math_round (def_max d)))
                else (js_le (def_min d) (def_max d) \<longrightarrow> js_le (def_min d) n \<and> js_le n (def_max d)))
           | _ \<Rightarrow> False))"

definition params_ok :: "pdef list \<Rightarrow> jsval \<Rightarrow> bool" where
  "params_ok defs obj = (case obj of JObj kvs \<Rightarrow> list_all (value_ok defs) kvs | _ \<Rightarrow> False)"

definition keyframe_ok :: "pdef list \<Rightarrow> jsval \<Rightarrow> bool" where
  "keyframe_ok defs kf =
     ((case getp_opt kf ''timeMs'' of JNum n \<Rightarrow> js_le (Fin 0) n | _ \<Rightarrow> False)
      \<and> params_ok defs (getp_opt kf ''params''))"

definition post_valid :: "pdef list \<Rightarrow> jsval \<Rightarrow> bool" where
  "post_valid defs T =
     (if getp_opt T ''mode'' = JStr ''keyframes'' then
        (case getp_opt T ''keyframes'' of JArr kfs \<Rightarrow> list_all (keyframe_ok defs) kfs | _ \<Rightarrow> False)
      else if getp_opt T ''mode'' = JStr ''fixed_fps'' then
        (case getp_opt (getp_opt T ''fixedFps'') ''dtMs'' of JNum n \<Rightarrow> js_le (Fin 8) n | _ \<Rightarrow> False)
        \<and> (case getp_opt (getp_opt T ''fixedFps'') ''frames'' of
              JArr fs \<Rightarrow> list_all (params_ok defs) fs | _ \<Rightarrow> False)
      else False)"

subsection \<open>Auxiliary notions for the proofs\<close>

definition clamp_value :: "pdef \<Rightarrow> jsnum \<Rightarrow> jsnum" where
  "clamp_value d n =
     (let vv = clamp n (def_min d) (def_max d)
      in if isToggleLike d then Math_round vv else vv)"

definition entry_value :: "pdef list \<Rightarrow> string \<Rightarrow> jsval \<Rightarrow> jsval option" where
  "entry_value defs k v =
     (case byId defs k of
        None \<Rightarrow> None
      | Some d \<Rightarrow> (case v of JNum n \<Rightarrow> Some (JNum (clamp_value d n)) | _ \<Rightarrow> None))"

definition stored :: "pdef list \<Rightarrow> (jsnum \<Rightarrow> bool) \<Rightarrow> (string \<times> jsval) list \<Rightarrow> bool" where
  "stored defs P out =
     (distinct (map fst out) \<and>
      (\<forall>(k, v) \<in> set out. k \<noteq> ''__proto__'' \<and>
          (\<exists>d n. byId defs k = Some d \<and> P n \<and> v = JNum (clamp_value d n))))"

definition json_or_absent :: "jsval \<Rightarrow> bool" where
  "json_or_absent v = (v = JUndefined \<or> is_json v)"

text \<open>
  The engine of the closed examples: each of them has numbers where numbers are read and
  strings where strings are read, so neither conversion is called.  Its heap has room for a
  million frames.
\<close>

definition plain_engine :: engine where
  "plain_engine =
     \<lparr>StringToNumber = (\<lambda>s. NaN), NumberToString = (\<lambda>n. []), heap_room = 1000000\<rparr>"

fun is_number :: "jsval \<Rightarrow> bool" where
  "is_number (JNum n) = True"
| "is_number v = False"

subsection \<open>Concrete inputs\<close>

definition ParamX :: pdef where
  "ParamX = \<lparr>def_id = ''ParamX'', def_min = Fin 0, def_max = Fin 1, def_default = 0,
             isToggleLike = False, def_note = []\<rparr>"

text \<open>What \<open>parseCatalog\<close> makes of a catalog line for \<open>ParamT\<close> with range \<open>[0.2, 0.8]\<close> and note \<open>toggle\<close>.\<close>

definition ParamT :: pdef where
  "ParamT = \<lparr>def_id = ''ParamT'', def_min = Fin (2 / 10), def_max = Fin (8 / 10), def_default = 0,
             isToggleLike = True, def_note = ''toggle''\<rparr>"

definition keyed_example :: jsval where
  "keyed_example =
     JObj [(''mode'', JStr ''keyframes''),
           (''keyframes'',
            JArr [JObj [(''timeMs'', JNum (Fin (- 5))),
                        (''params'', JObj [(''ParamX'', JNum (Fin 999))])]])]"

definition set_example :: jsval where
  "set_example =
     JObj [(''mode'', JStr ''keyframes''),
           (''keyframes'',
            JArr [JObj [(''timeMs'', JNum (Fin 10)),
                        (''set'', JObj [(''ParamX'', JNum (Fin 5))])]])]"

definition toggle_example :: jsval where
  "toggle_example =
     JObj [(''mode'', JStr ''fixed_fps''),
           (''fixedFps'',
            JObj [(''dtMs'', JNum (Fin 17)),
                  (''frames'', JArr [JObj [(''ParamT'', JNum (Fin (3 / 10)))]])])]"

text \<open>A timeline in keyframes mode whose keyframe has an object where its time should be.\<close>

definition untimed_keyframes :: jsval where
  "untimed_keyframes =
     JObj [(''mode'', JStr ''keyframes''),
           (''keyframes'', JArr [JObj [(''timeMs'', JObj []), (''params'', JObj [])]])]"

definition example_store :: store where
  "example_store = (\<lambda>a. JUndefined)(0 := keyed_example)"

section \<open>simpleFallbackTimeline\<close>

subsection \<open>More arithmetic\<close>

fun js_neg :: "jsnum \<Rightarrow> jsnum" where
  "js_neg (Fin a) = Fin (- a)"
| "js_neg NaN = NaN"
| "js_neg PInf = NInf"
| "js_neg NInf = PInf"

fun js_add :: "jsnum \<Rightarrow> jsnum \<Rightarrow> jsnum" where
  "js_add NaN y = NaN"
| "js_add x NaN = NaN"
| "js_add (Fin a) (Fin b) = Fin (a + b)"
| "js_add PInf NInf = NaN"
| "js_add NInf PInf = NaN"
| "js_add PInf y = PInf"
| "js_add NInf y = NInf"
| "js_add (Fin a) y = y"

definition js_sub :: "jsnum \<Rightarrow> jsnum \<Rightarrow> jsnum" where
  "js_sub x y = js_add x (js_neg y)"

text \<open>The sign of an infinite or finite number: \<open>-1\<close>, \<open>0\<close> or \<open>1\<close>.\<close>

fun js_sgn :: "jsnum \<Rightarrow> real" where
  "js_sgn (Fin a) = sgn a"
| "js_sgn PInf = 1"
| "js_sgn NInf = - 1"
| "js_sgn NaN = 0"

definition signed_inf :: "real \<Rightarrow> jsnum" where
  "signed_inf s = (if s = 0 then NaN else if 0 < s then PInf else NInf)"

fun js_mul :: "jsnum \<Rightarrow> jsnum \<Rightarrow> jsnum" where
  "js_mul NaN y = NaN"
| "js_mul x NaN = NaN"
| "js_mul (Fin a) (Fin b) = Fin (a * b)"
| "js_mul x y = signed_inf (js_sgn x * js_sgn y)"

text \<open>Division; a zero divisor counts as \<open>+0\<close>.\<close>

fun js_div :: "jsnum \<Rightarrow> jsnum \<Rightarrow> jsnum" where
  "js_div NaN y = NaN"
| "js_div x NaN = NaN"
| "js_div (Fin a) (Fin b) = (if b = 0 then signed_inf (sgn a) else Fin (a / b))"
| "js_div (Fin a) y = Fin 0"
| "js_div x (Fin b) = signed_inf (js_sgn x * (if b < 0 then - 1 else 1))"
| "js_div x y = NaN"

text \<open>\<open>x % y\<close>: the remainder has the sign of the dividend.\<close>

definition trunc :: "real \<Rightarrow> int" where
  "trunc x = (if 0 \<le> x then \<lfloor>x\<rfloor> else \<lceil>x\<rceil>)"

fun js_mod :: "jsnum \<Rightarrow> jsnum \<Rightarrow> jsnum" where
  "js_mod (Fin a) (Fin b) = (if b = 0 then NaN else Fin (a - b * of_int (trunc (a / b))))"
| "js_mod (Fin a) PInf = Fin a"
| "js_mod (Fin a) NInf = Fin a"
| "js_mod x y = NaN"

fun Math_abs :: "jsnum \<Rightarrow> jsnum" where
  "Math_abs (Fin a) = Fin \<bar>a\<bar>"
| "Math_abs NaN = NaN"
| "Math_abs x = PInf"

fun Math_floor :: "jsnum \<Rightarrow> jsnum" where
  "Math_floor (Fin a) = Fin (of_int \<lfloor>a\<rfloor>)"
| "Math_floor x = x"

fun Math_sin :: "jsnum \<Rightarrow> jsnum" where
  "Math_sin (Fin a) = Fin (sin a)"
| "Math_sin x = NaN"

subsection \<open>The synthesizer\<close>

text \<open>\<open>has = (id) => defs.some(d => d.id === id)\<close>\<close>

definition has :: "pdef list \<Rightarrow> string \<Rightarrow> bool" where
  "has defs i = list_ex (\<lambda>d. def_id d = i) defs"

text \<open>\<open>xs.reduce((m, w) => Math.max(m, w.k || 0), m)\<close>\<close>

fun max_over :: "engine \<Rightarrow> string \<Rightarrow> jsval list \<Rightarrow> jsnum \<Rightarrow> error + jsnum" where
  "max_over E k [] m = Inr m"
| "max_over E k (w # ws) m =
     bindE (getp w k) (\<lambda>x.
     bindE (ToNumber E (js_or x (JNum (Fin 0)))) (\<lambda>n.
       max_over E k ws (Math_max m n)))"

text \<open>\<open>/[.!?]/.test(v)\<close>: the string of \<open>v\<close> holds one of the three characters, anywhere.\<close>

definition test_punct :: "engine \<Rightarrow> jsval \<Rightarrow> error + bool" where
  "test_punct E v =
     bindE (ToString E v) (\<lambda>s.
       Inr (list_ex (\<lambda>c. c = CHR ''.'' \<or> c = CHR ''!'' \<or> c = CHR ''?'') s))"

text \<open>The callback of \<open>words.find\<close>; \<open>&&\<close> skips its right side when the test fails.\<close>

definition is_end :: "engine \<Rightarrow> jsnum \<Rightarrow> jsval \<Rightarrow> error + bool" where
  "is_end E t w =
     bindE (getp w ''text'') (\<lambda>tx.
     bindE (test_punct E tx) (\<lambda>p.
       if \<not> p then Inr False
       else bindE (getp w ''startMs'') (\<lambda>s.
            bindE (ToNumber E (js_or s (JNum (Fin 0)))) (\<lambda>n.
              Inr (js_lt (Math_abs (js_sub n t)) (Fin 200))))))"

fun find_end :: "engine \<Rightarrow> jsnum \<Rightarrow> jsval list \<Rightarrow> error + jsval" where
  "find_end E t [] = Inr JUndefined"
| "find_end E t (w # ws) = bindE (is_end E t w) (\<lambda>b. if b then Inr w else find_end E t ws)"

text \<open>The body of the \<open>for\<close> loop: the frame at time \<open>t\<close>.\<close>

definition breath :: "jsnum \<Rightarrow> jsnum" where
  "breath t =
     js_add (Fin (5 / 10))
       (js_mul (Fin (1 / 10))
          (Math_sin (js_mul (js_mul (js_mul (js_div t (Fin 1000)) (Fin 2)) (Fin pi)) (Fin (33 / 100)))))"

definition phase :: "jsnum \<Rightarrow> jsnum" where
  "phase t = Math_floor (js_mul (js_mod (js_div t (Fin 3500)) (Fin 1)) (Fin 10))"

definition frame :: "engine \<Rightarrow> jsval list \<Rightarrow> pdef list \<Rightarrow> jsnum \<Rightarrow> error + jsval" where
  "frame E words defs t =
     (let f0 = [];
          f1 = (if has defs ''ParamBreath'' then setp f0 ''ParamBreath'' (JNum (breath t)) else f0);
          f2 = (if has defs ''ParamEyeLOpen'' \<and> has defs ''ParamEyeROpen'' \<and> phase t = Fin 0
                then setp (setp f1 ''ParamEyeLOpen'' (JNum (Fin (1 / 10))))
                       ''ParamEyeROpen'' (JNum (Fin (1 / 10)))
                else f1)
      in if has defs ''ParamAngleY'' then
           bindE (find_end E t words) (\<lambda>e.
             Inr (JObj (if truthy e then setp f2 ''ParamAngleY'' (JNum (Fin 3)) else f2)))
         else Inr (JObj f2))"

text \<open>
  \<open>for (let t = 0; t <= dur; t += dtMs) { ...; frames.push(f) }\<close>.  The array is bounded
  twice: by the heap, and by the greatest length of an array, at which \<open>push\<close> raises a
  \<open>RangeError\<close>.  \<open>None\<close> is the run that never hands a result back: with the heap exhausted
  the process dies, and a loop that would not end comes to that.  The counter is exact: it
  is a multiple of a whole step of at most 1000, below \<open>2^53\<close> for as long as the array can
  grow.
\<close>

partial_function (option) frames_loop ::
  "engine \<Rightarrow> jsval list \<Rightarrow> pdef list \<Rightarrow> jsnum \<Rightarrow> jsnum \<Rightarrow> jsnum \<Rightarrow> jsval list
    \<Rightarrow> (error + jsval list) option" where
  "frames_loop E words defs dur dtMs t frames =
     (if js_le t dur then
        (case frame E words defs t of
           Inl e \<Rightarrow> Some (Inl e)
         | Inr f \<Rightarrow>
             if heap_room E < length frames then None
             else if max_array_length \<le> length frames then Some (Inl RangeError)
             else frames_loop E words defs dur dtMs (js_add t dtMs) (frames @ [f]))
      else Some (Inr frames))"

text \<open>
  \<open>simpleFallbackTimeline({ words, visemes }, defs, fps)\<close> with \<open>words\<close> and \<open>visemes\<close> arrays;
  an \<open>undefined\<close> \<open>fps\<close> takes the default 60.  \<open>None\<close> is the call that never returns.
\<close>

definition simpleFallbackTimeline ::
  "engine \<Rightarrow> jsval list \<Rightarrow> jsval list \<Rightarrow> pdef list \<Rightarrow> jsval \<Rightarrow> (error + jsval) option" where
  "simpleFallbackTimeline E words visemes defs fps =
     (case ToNumber E (if fps = JUndefined then JNum (Fin 60) else fps) of
        Inl e \<Rightarrow> Some (Inl e)
      | Inr n \<Rightarrow>
          (let dtMs = Math_round (js_div (Fin 1000) (Math_max (Fin 1) n)) in
           case max_over E ''endMs'' words (Fin 0) of
             Inl e \<Rightarrow> Some (Inl e)
           | Inr a \<Rightarrow>
               (case max_over E ''startMs'' visemes (Fin 0) of
                  Inl e \<Rightarrow> Some (Inl e)
                | Inr b \<Rightarrow>
                    (case frames_loop E words defs (Math_max a b) dtMs (Fin 0) [] of
                       None \<Rightarrow> None
                     | Some (Inl e) \<Rightarrow> Some (Inl e)
                     | Some (Inr frames) \<Rightarrow>
                         Some (Inr (JObj [(''mode'', JStr ''fixed_fps''),
                                          (''fixedFps'',
                                           JObj [(''dtMs'', JNum dtMs),
                                                 (''frames'', JArr frames)])]))))))"

section \<open>parseCatalog\<close>

text \<open>
  A string is the list of the bytes of its UTF-8 form, so a character outside ASCII is
  several \<open>char\<close>s; the dash of the catalog grammar (U+2014) is three of them.
\<close>

definition emdash :: string where
  "emdash = [CHR 0xE2, CHR 0x80, CHR 0x94]"

subsection \<open>The pieces of the line pattern\<close>

text \<open>
  Every matcher lists the ways its piece can match at the head of the input, in the order
  in which the backtracking matcher tries them; each way is what is left of the input,
  with what the piece captured.
\<close>

definition byte :: "char \<Rightarrow> nat" where
  "byte c = of_char c"

definition is_digit :: "char \<Rightarrow> bool" where
  "is_digit c = (48 \<le> byte c \<and> byte c \<le> 57)"

text \<open>\<open>[A-Za-z0-9_]\<close>\<close>

definition is_id_char :: "char \<Rightarrow> bool" where
  "is_id_char c =
     ((65 \<le> byte c \<and> byte c \<le> 90) \<or> (97 \<le> byte c \<and> byte c \<le> 122) \<or> is_digit c
      \<or> c = CHR ''_'')"

text \<open>\<open>[-\d.]\<close>\<close>

definition is_default_char :: "char \<Rightarrow> bool" where
  "is_default_char c = (c = CHR ''-'' \<or> is_digit c \<or> c = CHR ''.'')"

text \<open>
  The number of bytes of the white-space character (\<open>\s\<close>) at the head of the input, 0 when
  there is none: tab to carriage return, space, U+00A0, U+1680, U+2000 to U+200A, U+2028,
  U+2029, U+202F, U+205F, U+3000 and U+FEFF.
\<close>

fun space_len :: "string \<Rightarrow> nat" where
  "space_len [] = 0"
| "space_len (c # cs) =
     (if (9 \<le> byte c \<and> byte c \<le> 13) \<or> c = CHR 0x20 then 1
      else if c = CHR 0xC2 \<and> take 1 cs = [CHR 0xA0] then 2
      else if c = CHR 0xE1 \<and> take 2 cs = [CHR 0x9A, CHR 0x80] then 3
      else if c = CHR 0xE2 \<and> take 1 cs = [CHR 0x80] \<and> length cs \<ge> 2
              \<and> (0x80 \<le> byte (cs ! 1) \<and> byte (cs ! 1) \<le> 0x8A \<or> cs ! 1 = CHR 0xA8
                   \<or> cs ! 1 = CHR 0xA9 \<or> cs ! 1 = CHR 0xAF) then 3
      else if c = CHR 0xE2 \<and> take 2 cs = [CHR 0x81, CHR 0x9F] then 3
      else if c = CHR 0xE3 \<and> take 2 cs = [CHR 0x80, CHR 0x80] then 3
      else if c = CHR 0xEF \<and> take 2 cs = [CHR 0xBB, CHR 0xBF] then 3
      else 0)"

text \<open>\<open>\s*\<close>, the longest run first.  The fuel bounds the run by the length of the input.\<close>

fun spaces_upto :: "nat \<Rightarrow> string \<Rightarrow> string list" where
  "spaces_upto 0 s = [s]"
| "spaces_upto (Suc n) s =
     (if space_len s = 0 then [s] else spaces_upto n (drop (space_len s) s) @ [s])"

definition spaces :: "string \<Rightarrow> string list" where
  "spaces s = spaces_upto (length s) s"

text \<open>A literal.\<close>

definition lit :: "string \<Rightarrow> string \<Rightarrow> string list" where
  "lit l s = (if take (length l) s = l then [drop (length l) s] else [])"

text \<open>\<open>[...]+\<close> for a class of single bytes, the longest run first.\<close>

definition many1 :: "(char \<Rightarrow> bool) \<Rightarrow> string \<Rightarrow> (string \<times> string) list" where
  "many1 P s =
     map (\<lambda>k. (take k s, drop k s)) (rev [1..<Suc (length (takeWhile P s))])"

text \<open>\<open>-?\d+(?:\.\d+)?\<close>: the fraction first, then without it; the sign first, then without it.\<close>

definition fraction :: "string \<Rightarrow> (string \<times> string) list" where
  "fraction s =
     List.bind (lit ''.'' s) (\<lambda>s1.
     List.bind (many1 is_digit s1) (\<lambda>(ds, s2). [(CHR ''.'' # ds, s2)]))
     @ [([], s)]"

definition unsigned :: "string \<Rightarrow> (string \<times> string) list" where
  "unsigned s =
     List.bind (many1 is_digit s) (\<lambda>(ds, s1).
     List.bind (fraction s1) (\<lambda>(fs, s2). [(ds @ fs, s2)]))"

definition number :: "string \<Rightarrow> (string \<times> string) list" where
  "number s =
     List.bind (lit ''-'' s) (\<lambda>s1.
     List.bind (unsigned s1) (\<lambda>(ds, s2). [(CHR ''-'' # ds, s2)]))
     @ unsigned s"

text \<open>
  \<open>.\<close> matches anything but a line terminator: line feed, carriage return, U+2028 and
  U+2029.  \<open>dot_run\<close> is the length of the longest run of \<open>.\<close> at the head of the input.
\<close>

fun dot_run :: "string \<Rightarrow> nat" where
  "dot_run [] = 0"
| "dot_run (c # cs) =
     (if c = CHR 0x0A \<or> c = CHR 0x0D then 0
      else if c = CHR 0xE2 \<and> (take 2 cs = [CHR 0x80, CHR 0xA8] \<or> take 2 cs = [CHR 0x80, CHR 0xA9])
      then 0
      else Suc (dot_run cs))"

text \<open>\<open>.*?\<close>, the shortest first, and \<open>(.*)\<close>, the longest first.\<close>

definition dots_lazy :: "string \<Rightarrow> string list" where
  "dots_lazy s = map (\<lambda>k. drop k s) [0..<Suc (dot_run s)]"

definition dots_greedy :: "string \<Rightarrow> (string \<times> string) list" where
  "dots_greedy s = map (\<lambda>k. (take k s, drop k s)) (rev [0..<Suc (dot_run s)])"

text \<open>\<open>(?:\s*\(default\s*([-\d.]+).*?\))?\<close>: the group first, then without it.\<close>

definition default_group :: "string \<Rightarrow> (string option \<times> string) list" where
  "default_group s =
     List.bind (spaces s) (\<lambda>s1.
     List.bind (lit ''(default'' s1) (\<lambda>s2.
     List.bind (spaces s2) (\<lambda>s3.
     List.bind (many1 is_default_char s3) (\<lambda>(dflt, s4).
     List.bind (dots_lazy s4) (\<lambda>s5.
     List.bind (lit '')'' s5) (\<lambda>s6. [(Some dflt, s6)]))))))
     @ [(None, s)]"

text \<open>The last group: white space, the dash, white space and \<open>(.*)\<close>; then without it.\<close>

definition note_group :: "string \<Rightarrow> (string option \<times> string) list" where
  "note_group s =
     List.bind (spaces s) (\<lambda>s1.
     List.bind (lit emdash s1) (\<lambda>s2.
     List.bind (spaces s2) (\<lambda>s3.
     List.bind (dots_greedy s3) (\<lambda>(desc, s4). [(Some desc, s4)]))))
     @ [(None, s)]"

subsection \<open>The line pattern\<close>

text \<open>
  The matches of the whole pattern that start at the head of the input, with the captures
  \<open>id\<close>, \<open>min\<close>, \<open>max\<close>, \<open>dflt\<close> and \<open>desc\<close>; \<open>$\<close> asks for the end of the input.
\<close>

type_synonym captures = "string \<times> string \<times> string \<times> string option \<times> string option"

definition match_at :: "string \<Rightarrow> captures list" where
  "match_at s =
     List.bind (lit ''-'' s) (\<lambda>s.
     List.bind (spaces s) (\<lambda>s.
     List.bind (many1 is_id_char s) (\<lambda>(i, s).
     List.bind (spaces s) (\<lambda>s.
     List.bind (lit emdash s) (\<lambda>s.
     List.bind (spaces s) (\<lambda>s.
     List.bind (lit ''['' s) (\<lambda>s.
     List.bind (number s) (\<lambda>(mn, s).
     List.bind (lit '','' s) (\<lambda>s.
     List.bind (spaces s) (\<lambda>s.
     List.bind (number s) (\<lambda>(mx, s).
     List.bind (lit '']'' s) (\<lambda>s.
     List.bind (default_group s) (\<lambda>(dflt, s).
     List.bind (note_group s) (\<lambda>(desc, s).
       if s = [] then [(i, mn, mx, dflt, desc)] else []))))))))))))))"

text \<open>\<open>ln.match(...)\<close>: the first match at the leftmost position that has one.\<close>

fun match_line :: "string \<Rightarrow> captures option" where
  "match_line s =
     (case match_at s of
        m # ms \<Rightarrow> Some m
      | [] \<Rightarrow> (case s of [] \<Rightarrow> None | c # cs \<Rightarrow> match_line cs))"

subsection \<open>\<open>Number\<close> on the captures\<close>

definition digits_val :: "string \<Rightarrow> nat" where
  "digits_val ds = foldl (\<lambda>a c. 10 * a + (byte c - 48)) 0 ds"

text \<open>The value of digits, a point and digits; the point and either side may be missing.\<close>

definition unsigned_val :: "string \<Rightarrow> real" where
  "unsigned_val s =
     (let ip = takeWhile is_digit s; fp = drop (Suc (length ip)) s
      in real (digits_val ip) + real (digits_val fp) / 10 ^ length fp)"

text \<open>
  \<open>Number\<close> of a literal: the value, or an infinity when the literal overflows the doubles,
  that is from \<open>2^1024 - 2^970\<close> on, halfway between the greatest double and \<open>2^1024\<close>.
\<close>

definition double_of :: "real \<Rightarrow> jsnum" where
  "double_of x =
     (if 2 ^ 1024 - 2 ^ 970 \<le> x then PInf
      else if x \<le> - (2 ^ 1024 - 2 ^ 970) then NInf
      else Fin x)"

definition decimal :: "string \<Rightarrow> real" where
  "decimal s = (case s of c # r \<Rightarrow> (if c = CHR ''-'' then - unsigned_val r else unsigned_val s)
                | [] \<Rightarrow> 0)"

text \<open>
  Whether a string of the characters \<open>[-\d.]\<close> is a numeric literal: an optional sign, then
  digits with an optional point and digits, or a point and digits.
\<close>

definition numeric :: "string \<Rightarrow> bool" where
  "numeric s =
     (let b = (if take 1 s = ''-'' then drop 1 s else s);
          ip = takeWhile is_digit b; r = dropWhile is_digit b
      in (ip \<noteq> [] \<and> r = [])
         \<or> (take 1 r = ''.'' \<and> list_all is_digit (drop 1 r) \<and> (ip \<noteq> [] \<or> drop 1 r \<noteq> [])))"

text \<open>\<open>isFinite(Number(dflt)) ? Number(dflt) : 0\<close>\<close>

definition default_value :: "string option \<Rightarrow> real" where
  "default_value dflt =
     (case dflt of
        None \<Rightarrow> 0
      | Some s \<Rightarrow>
          (if numeric s then (case double_of (decimal s) of Fin x \<Rightarrow> x | _ \<Rightarrow> 0) else 0))"

text \<open>\<open>/piecewise|toggle|categor/i.test(note)\<close> on the lower-cased note.\<close>

definition lower :: "char \<Rightarrow> char" where
  "lower c = (if 65 \<le> byte c \<and> byte c \<le> 90 then char_of (byte c + 32) else c)"

fun contains :: "string \<Rightarrow> string \<Rightarrow> bool" where
  "contains w [] = (w = [])"
| "contains w (c # cs) = (take (length w) (c # cs) = w \<or> contains w cs)"

definition toggle_like :: "string \<Rightarrow> bool" where
  "toggle_like note =
     (let n = map lower note
      in contains ''piecewise'' n \<or> contains ''toggle'' n \<or> contains ''categor'' n)"

subsection \<open>The parser\<close>

text \<open>The item pushed for a matching line.\<close>

definition item :: "captures \<Rightarrow> pdef" where
  "item m =
     (case m of (i, mn, mx, dflt, desc) \<Rightarrow>
        \<lparr>def_id = i, def_min = double_of (decimal mn), def_max = double_of (decimal mx),
         def_default = default_value dflt,
         isToggleLike = toggle_like (case desc of None \<Rightarrow> [] | Some d \<Rightarrow> d),
         def_note = (case desc of None \<Rightarrow> [] | Some d \<Rightarrow> d)\<rparr>)"

text \<open>\<open>txt.split(/\r?\n/)\<close>: cut at every line feed, and drop one carriage return before it.\<close>

fun split_nl :: "string \<Rightarrow> string list" where
  "split_nl [] = [Nil]"
| "split_nl (c # cs) =
     (if c = CHR 0x0A then [] # split_nl cs
      else (case split_nl cs of l # ls \<Rightarrow> (c # l) # ls | [] \<Rightarrow> [c # Nil]))"

definition strip_cr :: "string \<Rightarrow> string" where
  "strip_cr l = (if l \<noteq> [] \<and> last l = CHR 0x0D then butlast l else l)"

definition split_lines :: "string \<Rightarrow> string list" where
  "split_lines s = (let ps = split_nl s in map strip_cr (butlast ps) @ [last ps])"

text \<open>
  \<open>parseCatalog(txt)\<close>: a falsy \<open>txt\<close> stands for the empty string; any other value that is
  not a string has no \<open>split\<close>, and the call raises.
\<close>

definition parseCatalog :: "jsval \<Rightarrow> error + pdef list" where
  "parseCatalog txt =
     (case js_or txt (JStr []) of
        JStr s \<Rightarrow> Inr (map item (List.map_filter match_line (split_lines s)))
      | _ \<Rightarrow> Inl TypeError)"

section \<open>The handler of \<open>/live2d_timeline\<close>\<close>

text \<open>
  What the request to the generative model comes to: it fails (no key, a network error, any
  exception of the client), or it answers with a text.  \<open>Replies None\<close> is an answer whose
  text is empty or is not JSON, so that \<open>outJSON\<close> stays \<open>null\<close>; \<open>Replies (Some v)\<close> is an
  answer that parses to \<open>v\<close>.
\<close>

datatype collaborator = Fails | Replies "jsval option"

text \<open>What is sent back: status 400 with \<open>BAD_INPUT\<close>, or status 200 with a timeline.\<close>

datatype response = BadInput | Sent jsval

text \<open>A field of the destructured body, with its default.\<close>

definition field :: "jsval \<Rightarrow> string \<Rightarrow> jsval \<Rightarrow> jsval" where
  "field b k d = (if getp_opt b k = JUndefined then d else getp_opt b k)"

fun is_array :: "jsval \<Rightarrow> bool" where
  "is_array (JArr xs) = True"
| "is_array v = False"

text \<open>\<open>v?.length\<close>\<close>

fun length_prop :: "jsval \<Rightarrow> jsval" where
  "length_prop (JArr xs) = JNum (Fin (real (length xs)))"
| "length_prop (JStr s) = JNum (Fin (real (length s)))"
| "length_prop (JObj kvs) = own kvs ''length''"
| "length_prop v = JUndefined"

text \<open>\<open>(words || []).map(w => w?.text || '').join(' ')\<close>\<close>

definition lineText :: "engine \<Rightarrow> jsval list \<Rightarrow> error + string" where
  "lineText E words =
     bindE (mapE (\<lambda>w. ToString E (js_or (getp_opt w ''text'') (JStr []))) words)
       (\<lambda>ss. Inr (join '' '' ss))"

text \<open>\<open>clampTimeline(simpleFallbackTimeline({ words, visemes }, ds, fps), ds)\<close>, sent.\<close>

definition fallback_clamped ::
  "engine \<Rightarrow> jsval list \<Rightarrow> jsval list \<Rightarrow> jsval \<Rightarrow> pdef list \<Rightarrow> (error + response) option" where
  "fallback_clamped E words visemes fps ds =
     (case simpleFallbackTimeline E words visemes ds fps of
        None \<Rightarrow> None
      | Some (Inl e) \<Rightarrow> Some (Inl e)
      | Some (Inr fb) \<Rightarrow>
          (case clampTimeline E fb ds of Inl e \<Rightarrow> Some (Inl e) | Inr t \<Rightarrow> Some (Inr (Sent t))))"

text \<open>The \<open>try\<close> block.\<close>

definition attempt ::
  "engine \<Rightarrow> collaborator \<Rightarrow> jsval list \<Rightarrow> jsval list \<Rightarrow> jsval \<Rightarrow> pdef list
    \<Rightarrow> (error + response) option" where
  "attempt E collab words visemes fps trimmed =
     (case collab of
        Fails \<Rightarrow> Some (Inl CollaboratorError)
      | Replies out \<Rightarrow>
          (let outJSON = (case out of None \<Rightarrow> JNull | Some v \<Rightarrow> v);
               isFixed = (truthy outJSON \<and> getp_opt outJSON ''mode'' = JStr ''fixed_fps''
                          \<and> truthy (getp_opt outJSON ''fixedFps'')
                          \<and> is_array (getp_opt (getp_opt outJSON ''fixedFps'') ''frames''));
               isKeyed = (truthy outJSON \<and> getp_opt outJSON ''mode'' = JStr ''keyframes''
                          \<and> is_array (getp_opt outJSON ''keyframes''))
           in if \<not> isFixed \<and> \<not> isKeyed then fallback_clamped E words visemes fps trimmed
              else
                (case clampTimeline E outJSON trimmed of
                   Inl e \<Rightarrow> Some (Inl e)
                 | Inr safe \<Rightarrow>
                     if getp_opt safe ''mode'' = JStr ''keyframes''
                        \<and> (\<not> is_array (getp_opt safe ''keyframes'')
                             \<or> \<not> truthy (length_prop (getp_opt safe ''keyframes'')))
                     then fallback_clamped E words visemes fps trimmed
                     else if getp_opt safe ''mode'' = JStr ''fixed_fps''
                        \<and> \<not> truthy (length_prop (getp_opt (getp_opt safe ''fixedFps'') ''frames''))
                     then fallback_clamped E words visemes fps trimmed
                     else Some (Inr (Sent safe)))))"

text \<open>
  The handler from \<open>if (!defs.length)\<close> on: the early fallback, the truncation to
  \<open>MAX_PARAMS = 280\<close>, the text of the words, the \<open>try\<close> block and its \<open>catch\<close>.
\<close>

definition plan ::
  "engine \<Rightarrow> collaborator \<Rightarrow> jsval list \<Rightarrow> jsval list \<Rightarrow> jsval \<Rightarrow> pdef list
    \<Rightarrow> (error + response) option" where
  "plan E collab words visemes fps defs =
     (if defs = [] then
        (case simpleFallbackTimeline E words visemes [] fps of
           None \<Rightarrow> None
         | Some (Inl e) \<Rightarrow> Some (Inl e)
         | Some (Inr fb) \<Rightarrow> Some (Inr (Sent fb)))
      else
        (let trimmed = take 280 defs in
         case lineText E words of
           Inl e \<Rightarrow> Some (Inl e)
         | Inr txt \<Rightarrow>
             (case attempt E collab words visemes fps trimmed of
                None \<Rightarrow> None
              | Some (Inr r) \<Rightarrow> Some (Inr r)
              | Some (Inl e) \<Rightarrow> fallback_clamped E words visemes fps defs)))"

text \<open>
  The handler on the parsed body.  \<open>None\<close> is the request that is never answered, the
  process dying in the synthesizer's loop; \<open>Some (Inl e)\<close> is the exception \<open>e\<close> leaving the
  handler.
\<close>

definition live2d_timeline :: "engine \<Rightarrow> collaborator \<Rightarrow> jsval \<Rightarrow> (error + response) option" where
  "live2d_timeline E collab body =
     (let b = js_or body (JObj []);
          words = field b ''words'' (JArr []);
          visemes = field b ''visemes'' (JArr []);
          parameterCatalog = field b ''parameterCatalog'' (JStr []);
          fps = field b ''fps'' (JNum (Fin 60))
      in case words of
           JArr ws \<Rightarrow>
             (case visemes of
                JArr vs \<Rightarrow>
                  (case parseCatalog parameterCatalog of
                     Inl e \<Rightarrow> Some (Inl e)
                   | Inr defs \<Rightarrow> plan E collab ws vs fps defs)
              | _ \<Rightarrow> Some (Inr BadInput))
         | _ \<Rightarrow> Some (Inr BadInput))"

definition ParamAngleY :: pdef where
  "ParamAngleY = \<lparr>def_id = ''ParamAngleY'', def_min = Fin (- 10), def_max = Fin 10, def_default = 0,
                  isToggleLike = False, def_note = []\<rparr>"

text \<open>A word whose text holds a point but does not end in one.\<close>

definition decimal_word :: jsval where
  "decimal_word =
     JObj [(''text'', JStr ''3.5''), (''startMs'', JNum (Fin 0)), (''endMs'', JNum (Fin 30))]"

section \<open>Requests as the interface describes them\<close>

text \<open>
  The time up to which the synthesizer can work: one frame for each millisecond, at the
  smallest step, must fit the heap and stay below the greatest length of an array.
\<close>

definition time_limit :: "engine \<Rightarrow> nat" where
  "time_limit E = min (heap_room E) (max_array_length - 2)"

definition time_within :: "nat \<Rightarrow> jsval \<Rightarrow> bool" where
  "time_within L v = (case v of JUndefined \<Rightarrow> True | JNum (Fin r) \<Rightarrow> r \<le> real L | _ \<Rightarrow> False)"

text \<open>
  A word boundary: an object whose \<open>text\<close> is a string or is absent, whose \<open>startMs\<close> is a
  number or is absent, and whose \<open>endMs\<close> is a finite number within the limit or is absent.
  A viseme event: an object whose \<open>startMs\<close> is such a number or is absent.
\<close>

definition typed_text :: "jsval \<Rightarrow> bool" where
  "typed_text v = (case v of JUndefined \<Rightarrow> True | JStr s \<Rightarrow> True | _ \<Rightarrow> False)"

definition typed_word :: "nat \<Rightarrow> jsval \<Rightarrow> bool" where
  "typed_word L w =
     (case w of
        JObj kvs \<Rightarrow>
          typed_text (own kvs ''text'') \<and> num_or_absent (own kvs ''startMs'')
          \<and> time_within L (own kvs ''endMs'')
      | _ \<Rightarrow> False)"

definition typed_viseme :: "nat \<Rightarrow> jsval \<Rightarrow> bool" where
  "typed_viseme L v = (case v of JObj kvs \<Rightarrow> time_within L (own kvs ''startMs'') | _ \<Rightarrow> False)"

text \<open>A frame rate for which the step \<open>round(1000 / max(1, fps))\<close> is at least 1.\<close>

definition typed_fps :: "jsval \<Rightarrow> bool" where
  "typed_fps v = (case v of JNum (Fin r) \<Rightarrow> r \<le> 2000 | _ \<Rightarrow> False)"

text \<open>
  A request body with arrays of word boundaries and viseme events, a catalog that is a
  string and such a frame rate, each of them possibly left to its default.
\<close>

definition typed_request :: "engine \<Rightarrow> jsval \<Rightarrow> bool" where
  "typed_request E body =
     (let b = js_or body (JObj []) in
      (case field b ''words'' (JArr []) of
         JArr ws \<Rightarrow> list_all (typed_word (time_limit E)) ws
       | _ \<Rightarrow> False)
      \<and> (case field b ''visemes'' (JArr []) of
            JArr vs \<Rightarrow> list_all (typed_viseme (time_limit E)) vs
          | _ \<Rightarrow> False)
      \<and> (case field b ''parameterCatalog'' (JStr []) of JStr s \<Rightarrow> True | _ \<Rightarrow> False)
      \<and> typed_fps (field b ''fps'' (JNum (Fin 60))))"

text \<open>
  The test of the handler on the answer of the model: a truthy value with the mode
  \<open>fixed_fps\<close>, a truthy \<open>fixedFps\<close> and an array of frames, or with the mode \<open>keyframes\<close> and
  an array of keyframes.
\<close>

definition recognized :: "jsval \<Rightarrow> bool" where
  "recognized v =
     (truthy v
      \<and> ((getp_opt v ''mode'' = JStr ''fixed_fps'' \<and> truthy (getp_opt v ''fixedFps'')
           \<and> is_array (getp_opt (getp_opt v ''fixedFps'') ''frames''))
          \<or> (getp_opt v ''mode'' = JStr ''keyframes'' \<and> is_array (getp_opt v ''keyframes''))))"

text \<open>A timeline with at least one keyframe, or at least one frame.\<close>

definition nonempty :: "jsval \<Rightarrow> bool" where
  "nonempty T =
     (if getp_opt T ''mode'' = JStr ''keyframes'' then
        (case getp_opt T ''keyframes'' of JArr kfs \<Rightarrow> kfs \<noteq> [] | _ \<Rightarrow> False)
      else if getp_opt T ''mode'' = JStr ''fixed_fps'' then
        (case getp_opt (getp_opt T ''fixedFps'') ''frames'' of JArr fs \<Rightarrow> fs \<noteq> [] | _ \<Rightarrow> False)
      else False)"

text \<open>The shape of what the synthesizer returns.\<close>

definition fixed_timeline :: "real \<Rightarrow> jsval list \<Rightarrow> jsval" where
  "fixed_timeline d fs =
     JObj [(''mode'', JStr ''fixed_fps''),
           (''fixedFps'', JObj [(''dtMs'', JNum (Fin d)), (''frames'', JArr fs)])]"

subsection \<open>Concrete requests\<close>

definition stop_word :: jsval where
  "stop_word =
     JObj [(''text'', JStr ''Stop.''), (''startMs'', JNum (Fin 0)), (''endMs'', JNum (Fin 0))]"

definition line_ParamX :: string where
  "line_ParamX = ''- ParamX '' @ emdash @ '' [0, 1]''"

definition line_ParamAngleY :: string where
  "line_ParamAngleY = ''- ParamAngleY '' @ emdash @ '' [-10, 10]''"

text \<open>A request with one word, one viseme and a catalog of one line.\<close>

definition plain_request :: jsval where
  "plain_request =
     JObj [(''words'', JArr [stop_word]),
           (''visemes'', JArr [JObj [(''startMs'', JNum (Fin 0)), (''visemeId'', JNum (Fin 1))]]),
           (''parameterCatalog'', JStr line_ParamAngleY),
           (''fps'', JNum (Fin 60))]"



text \<open>A request with one word whose \<open>endMs\<close> is an object, and no catalog.\<close>

definition untimed_word_request :: jsval where
  "untimed_word_request =
     JObj [(''words'', JArr [JObj [(''text'', JStr ''Hi''), (''endMs'', JObj [])]]),
           (''visemes'', JArr [])]"

text \<open>
  A catalog of 281 lines, 280 for \<open>ParamX\<close> and the last for \<open>ParamAngleY\<close>, and a request
  with it.
\<close>

definition long_catalog :: string where
  "long_catalog = concat (replicate 280 (line_ParamX @ [CHR 0x0A])) @ line_ParamAngleY"

definition long_catalog_request :: jsval where
  "long_catalog_request =
     JObj [(''words'', JArr [stop_word]), (''visemes'', JArr []),
           (''parameterCatalog'', JStr long_catalog)]"

text \<open>An answer of the model of the right shape and with no keyframe.\<close>

definition empty_keyframes :: jsval where
  "empty_keyframes = JObj [(''mode'', JStr ''keyframes''), (''keyframes'', JArr [])]"

section \<open>Properties of objects and of the clamp\<close>

lemma getp_getp_opt: "v \<noteq> JNull \<Longrightarrow> v \<noteq> JUndefined \<Longrightarrow> getp v k = Inr (getp_opt v k)"
  by (cases v) simp_all

lemma clampMap_js_or: "clampMap defs (js_or x (JObj [])) = clampMap defs x"
  by (simp add: clampMap_def js_or_def)

lemma Math_max_Fin: "Math_max (Fin a) (Fin b) = Fin (max a b)"
  by (simp add: Math_max_def max_def)

lemma time_num_ToNumber:
  assumes "num_or_absent (getp_opt kf ''timeMs'')"
  shows "ToNumber E (js_or (getp_opt kf ''timeMs'') (JNum (Fin 0))) = Inr (time_num kf)"
proof (cases "getp_opt kf ''timeMs''")
  case (JNum n)
  then show ?thesis using assms
    by (cases n) (simp_all add: time_num_def js_or_def num_or_absent_def)
qed (use assms in \<open>simp_all add: time_num_def js_or_def num_or_absent_def\<close>)

lemma clampKeyframe_timed:
  assumes "timed_kf kf"
  shows "clampKeyframe E defs kf = Inr (clamped_keyframe defs kf)"
proof -
  from assms have nn: "kf \<noteq> JNull" "kf \<noteq> JUndefined" by (simp_all add: timed_kf_def)
  have tm: "ToNumber E (js_or (getp_opt kf ''timeMs'') (JNum (Fin 0))) = Inr (time_num kf)"
    using assms by (intro time_num_ToNumber) (simp add: timed_kf_def)
  show ?thesis
    by (simp add: clampKeyframe_def getp_getp_opt[OF nn] bindE_def tm clamped_keyframe_def
        params_of_def clampMap_js_or)
qed

lemma typed_kf_timed: "typed_kf kf \<Longrightarrow> timed_kf kf"
  by (cases "getp_opt kf ''timeMs''")
     (auto simp: typed_kf_def timed_kf_def num_or_absent_def split: jsnum.splits)

lemma time_num_typed: "typed_kf kf \<Longrightarrow> time_num kf = Fin (time_of kf)"
  by (cases "getp_opt kf ''timeMs''")
     (auto simp: typed_kf_def time_num_def time_of_def split: jsnum.splits)

lemma mapE_Inr: "(\<And>x. x \<in> set xs \<Longrightarrow> f x = Inr (g x)) \<Longrightarrow> mapE f xs = Inr (map g xs)"
  by (induction xs) (simp_all add: bindE_def)

lemma dt_typed:
  assumes "num_or_absent v"
  shows "ToNumber E (js_or v (JNum (Fin (1000 / 60)))) = Inr (dt_num v)"
proof (cases v)
  case (JNum n)
  then show ?thesis using assms
    by (cases n) (simp_all add: dt_num_def js_or_def num_or_absent_def)
qed (use assms in \<open>simp_all add: dt_num_def js_or_def num_or_absent_def\<close>)

lemma clampTimeline_run_typed:
  assumes "typed_timeline T"
  shows "clampTimeline_run E T defs = (clamped defs T, None)"
proof -
  from assms obtain kvs where T: "T = JObj kvs"
    by (cases T) (simp_all add: typed_timeline_def)
  show ?thesis
  proof (cases "own kvs ''mode'' = JStr ''keyframes''")
    case True
    with assms T obtain kfs where k: "js_or (own kvs ''keyframes'') (JArr []) = JArr kfs"
      and t: "list_all timed_kf kfs"
      by (cases "js_or (own kvs ''keyframes'') (JArr [])")
         (simp_all add: typed_timeline_def del: own.simps)
    have "mapE (clampKeyframe E defs) kfs = Inr (map (clamped_keyframe defs) kfs)"
      using t by (intro mapE_Inr clampKeyframe_timed) (simp add: list_all_iff)
    then show ?thesis
      using True k T
      by (simp add: clampTimeline_run_def clamped_def del: own.simps)
  next
    case False
    with assms T have m: "own kvs ''mode'' = JStr ''fixed_fps''"
      by (simp add: typed_timeline_def del: own.simps split: if_splits)
    with assms T False obtain fk where f: "own kvs ''fixedFps'' = JObj fk"
      by (cases "own kvs ''fixedFps''") (simp_all add: typed_timeline_def del: own.simps)
    with assms T False m obtain fs where fr: "own fk ''frames'' = JArr fs"
      by (cases "own fk ''frames''") (simp_all add: typed_timeline_def del: own.simps)
    from assms T False m f fr have d: "num_or_absent (own fk ''dtMs'')"
      by (simp add: typed_timeline_def del: own.simps)
    have d': "ToNumber E (js_or (own fk ''dtMs'') (JNum (Fin (50 / 3)))) = Inr (dt_num (own fk ''dtMs''))"
      using dt_typed[OF d, of E] by simp
    show ?thesis
      using False m f fr T
      by (simp add: clampTimeline_run_def clamped_def d' Let_def del: own.simps)
  qed
qed

lemma round_clamp_idem:
  fixes a b :: real
  assumes "r = \<lfloor>max a (min b x) + 1 / 2\<rfloor>"
  shows "\<lfloor>max a (min b (of_int r)) + 1 / 2\<rfloor> = r"
proof -
  let ?c = "max a (min b x)"
  have lo: "of_int r \<le> ?c + 1 / 2" and hi: "?c + 1 / 2 < of_int r + 1"
    using assms by linarith+
  have "of_int r \<le> max a (min b (of_int r)) + 1 / 2 \<and> max a (min b (of_int r)) + 1 / 2 < of_int r + 1"
    using lo hi by (auto simp: max_def min_def split: if_splits)
  then show ?thesis by (simp add: floor_eq_iff)
qed

lemma floor_half_int: "\<lfloor>real_of_int z + 1 / 2\<rfloor> = z"
  by linarith

lemma round_mono: "x \<le> y \<Longrightarrow> \<lfloor>x + 1 / 2\<rfloor> \<le> \<lfloor>y + 1 / 2 :: real\<rfloor>"
  by (intro floor_mono) simp

lemma round_le: "x \<le> real_of_int k \<Longrightarrow> \<lfloor>x + 1 / 2\<rfloor> \<le> k"
proof -
  assume "x \<le> real_of_int k"
  hence "x + 1 / 2 < of_int (k + 1)" by simp
  hence "\<lfloor>x + 1 / 2\<rfloor> < k + 1" by (simp only: floor_less_iff)
  thus ?thesis by simp
qed

lemma round_ge: "real_of_int k \<le> x \<Longrightarrow> k \<le> \<lfloor>x + 1 / 2\<rfloor>"
  by (simp add: le_floor_iff)

lemma round_up:
  "x \<le> y \<Longrightarrow> y \<le> real_of_int \<lfloor>x + 1 / 2\<rfloor> \<Longrightarrow> \<lfloor>y + 1 / 2\<rfloor> = \<lfloor>x + 1 / 2\<rfloor>"
  using round_mono [of x y] round_le [of y "\<lfloor>x + 1 / 2\<rfloor>"] by simp

lemma round_down:
  "x \<le> y \<Longrightarrow> \<not> x \<le> real_of_int \<lfloor>y + 1 / 2\<rfloor> \<Longrightarrow> \<lfloor>x + 1 / 2\<rfloor> = \<lfloor>y + 1 / 2\<rfloor>"
  using round_mono [of x y] round_ge [of "\<lfloor>y + 1 / 2\<rfloor>" x] by simp

lemma round_under:
  "\<not> x \<le> real_of_int \<lfloor>x + 1 / 2\<rfloor> \<Longrightarrow> x \<le> real_of_int \<lfloor>y + 1 / 2\<rfloor> \<Longrightarrow> x \<le> y"
  using round_mono [of y x] by (cases "x \<le> y") auto

lemma clamp_Fin: "clamp (Fin x) (Fin a) (Fin b) = Fin (max a (min b x))"
  by (simp add: clamp_def Math_max_def Math_min_def max_def min_def)

text \<open>Clamping a clamped number changes nothing, whatever the bounds, finite or infinite.\<close>

lemma clamp_value_idem: "clamp_value d (clamp_value d n) = clamp_value d n"
proof (cases "isToggleLike d")
  case False
  then show ?thesis
    by (cases "def_min d"; cases "def_max d"; cases n)
       (auto simp: clamp_value_def clamp_def Math_max_def Math_min_def Let_def)
next
  case True
  then show ?thesis
    apply (cases "def_min d"; cases "def_max d"; cases n)
    apply (simp_all add: clamp_value_def Let_def clamp_Fin)
    apply (simp_all add: clamp_def Math_max_def Math_min_def round_clamp_idem)
    apply (intro conjI impI; (linarith | (simp add: round_up round_down; fail) | (erule (1) round_under) | (rule round_up; linarith)))+
    done
qed

lemma clampMap_loop_Cons:
  "clampMap_loop defs ((k, v) # es) out =
     clampMap_loop defs es
       (case entry_value defs k v of None \<Rightarrow> out | Some v' \<Rightarrow> assign out k v')"
  by (simp add: entry_value_def clamp_value_def Let_def split: option.splits jsval.splits)

lemma setp_new: "k \<notin> fst ` set out \<Longrightarrow> setp out k v = out @ [(k, v)]"
  by (induction out) auto

lemma keys_setp_old: "k \<in> fst ` set out \<Longrightarrow> map fst (setp out k v) = map fst out"
  by (induction out) force+

lemma keys_setp: "map fst (setp out k v) = (if k \<in> fst ` set out then map fst out else map fst out @ [k])"
  by (simp add: setp_new keys_setp_old)

lemma set_setp: "set (setp out k v) \<subseteq> insert (k, v) (set out)"
  by (induction out) (auto split: if_splits)

lemma stored_assign:
  assumes "stored defs P out" and "byId defs k = Some d" and "P n"
  shows "stored defs P (assign out k (JNum (clamp_value d n)))"
proof (cases "k = ''__proto__''")
  case True
  then show ?thesis using assms by (simp add: assign_def)
next
  case False
  have "distinct (map fst (setp out k (JNum (clamp_value d n))))"
    using assms(1) by (auto simp: keys_setp stored_def)
  moreover have "\<forall>(k', v') \<in> set (setp out k (JNum (clamp_value d n))). k' \<noteq> ''__proto__'' \<and>
          (\<exists>d n. byId defs k' = Some d \<and> P n \<and> v' = JNum (clamp_value d n))"
  proof (clarify)
    fix k' v' assume "(k', v') \<in> set (setp out k (JNum (clamp_value d n)))"
    then have "(k', v') = (k, JNum (clamp_value d n)) \<or> (k', v') \<in> set out"
      using set_setp[of out k "JNum (clamp_value d n)"] by blast
    then show "k' \<noteq> ''__proto__'' \<and>
          (\<exists>d n. byId defs k' = Some d \<and> P n \<and> v' = JNum (clamp_value d n))"
    proof
      assume "(k', v') = (k, JNum (clamp_value d n))"
      then show ?thesis using assms(2,3) False by blast
    next
      assume "(k', v') \<in> set out"
      then show ?thesis using assms(1) unfolding stored_def by blast
    qed
  qed
  ultimately show ?thesis using False by (simp add: stored_def assign_def)
qed

lemma stored_loop:
  assumes "stored defs P out" and "\<forall>(k, v) \<in> set es. \<forall>n. v = JNum n \<longrightarrow> P n"
  shows "stored defs P (clampMap_loop defs es out)"
  using assms
proof (induction es arbitrary: out)
  case Nil
  then show ?case by simp
next
  case (Cons e es)
  obtain k v where e: "e = (k, v)" by (cases e)
  have "stored defs P (case entry_value defs k v of None \<Rightarrow> out | Some v' \<Rightarrow> assign out k v')"
    using Cons.prems e
    by (auto simp: entry_value_def stored_assign split: option.splits jsval.splits)
  then show ?case using Cons e by (simp add: clampMap_loop_Cons del: clampMap_loop.simps)
qed

lemma stored_fixed:
  assumes "stored defs P (out @ es)"
  shows "clampMap_loop defs es out = out @ es"
  using assms
proof (induction es arbitrary: out)
  case Nil
  then show ?case by simp
next
  case (Cons e es)
  obtain k v where e: "e = (k, v)" by (cases e)
  from Cons.prems e obtain d n where d: "byId defs k = Some d" "v = JNum (clamp_value d n)"
    and k: "k \<noteq> ''__proto__''" "k \<notin> fst ` set out"
    by (auto simp: stored_def)
  have "entry_value defs k v = Some v"
    using d by (simp add: entry_value_def clamp_value_idem)
  moreover have "assign out k v = out @ [(k, v)]"
    using k by (simp add: assign_def setp_new)
  ultimately have "clampMap_loop defs (e # es) out = clampMap_loop defs es (out @ [(k, v)])"
    using e by (simp add: clampMap_loop_Cons del: clampMap_loop.simps)
  also have "\<dots> = (out @ [(k, v)]) @ es"
    using Cons.prems e by (intro Cons.IH) simp
  finally show ?case using e by simp
qed

lemma stored_Nil: "stored defs P []"
  by (simp add: stored_def)

lemma clampMap_idem: "clampMap defs (clampMap defs x) = clampMap defs x"
proof -
  have "stored defs (\<lambda>n. True) (clampMap_loop defs (entries (js_or x (JObj []))) [])"
    by (intro stored_loop stored_Nil) simp
  then have "clampMap_loop defs (clampMap_loop defs (entries (js_or x (JObj []))) []) []
      = clampMap_loop defs (entries (js_or x (JObj []))) []"
    using stored_fixed[of defs "\<lambda>n. True" "[]"] by simp
  then show ?thesis by (simp add: clampMap_def js_or_def)
qed

lemma map_of_setp: "map_of (setp kvs k v) = (map_of kvs)(k \<mapsto> v)"
  by (induction kvs) (auto simp: fun_eq_iff)

lemma own_setp: "own (setp kvs k v) k' = (if k' = k then v else own kvs k')"
  by (simp add: map_of_setp)

lemma setp_same: "map_of kvs k = Some v \<Longrightarrow> setp kvs k v = kvs"
  by (induction kvs) (auto split: if_splits)

lemma setp_setp: "setp (setp kvs k v) k w = setp kvs k w"
  by (induction kvs) auto

text \<open>Rounding and flooring at an integer, twice, is rounding and flooring once.\<close>

lemma floor_round_idem:
  fixes c :: int
  shows "Math_max (Fin (of_int c)) (Math_round (Math_max (Fin (of_int c)) (Math_round n)))
       = Math_max (Fin (of_int c)) (Math_round n)"
proof (cases n)
  case (Fin r)
  define m where "m = max c \<lfloor>r + 1 / 2\<rfloor>"
  have 1: "Math_max (Fin (of_int c)) (Math_round n) = Fin (of_int m)"
    using Fin by (simp add: Math_max_Fin m_def)
  have 2: "Math_round (Fin (of_int m)) = Fin (of_int m)"
    by (simp only: Math_round.simps floor_half_int)
  have 3: "Math_max (Fin (of_int c)) (Fin (of_int m)) = Fin (of_int m)"
    by (simp add: Math_max_Fin m_def)
  show ?thesis by (simp only: 1 2 3)
qed (simp_all add: Math_max_def)

lemma floor_round_not_NaN: "n \<noteq> NaN \<Longrightarrow> Math_max (Fin c) (Math_round n) \<noteq> NaN"
  by (cases n) (simp_all add: Math_max_def)

lemma time_num_not_NaN: "time_num kf \<noteq> NaN"
  by (cases "getp_opt kf ''timeMs''") (simp_all add: time_num_def)

lemma time_num_clamped:
  "time_num (clamped_keyframe defs kf) = Math_max (Fin 0) (Math_round (time_num kf))"
  using floor_round_not_NaN [OF time_num_not_NaN, of 0 kf]
  by (simp add: clamped_keyframe_def time_num_def)

lemma params_of_clamped: "params_of (clamped_keyframe defs kf) = clampMap defs (params_of kf)"
  by (simp add: clamped_keyframe_def params_of_def clampMap_def)

lemma clamped_keyframe_idem: "clamped_keyframe defs (clamped_keyframe defs kf) = clamped_keyframe defs kf"
proof -
  have "Math_max (Fin 0) (Math_round (Math_max (Fin 0) (Math_round (time_num kf))))
      = Math_max (Fin 0) (Math_round (time_num kf))"
    using floor_round_idem [of 0 "time_num kf"] by simp
  then show ?thesis
    unfolding clamped_keyframe_def[of defs "clamped_keyframe defs kf"] time_num_clamped
      params_of_clamped
    by (simp add: clamped_keyframe_def clampMap_idem)
qed

lemma timed_clamped_keyframe: "timed_kf (clamped_keyframe defs kf)"
  using floor_round_not_NaN [OF time_num_not_NaN, of 0 kf]
  by (simp add: timed_kf_def clamped_keyframe_def num_or_absent_def)

lemma clamped_keyframe_comp: "clamped_keyframe defs \<circ> clamped_keyframe defs = clamped_keyframe defs"
  by (rule ext) (simp add: clamped_keyframe_idem)

lemma clampMap_comp: "clampMap defs \<circ> clampMap defs = clampMap defs"
  by (rule ext) (simp add: clampMap_idem)

lemma dt_num_not_NaN: "dt_num v \<noteq> NaN"
  by (cases v) (simp_all add: dt_num_def)

lemma dt_num_floor:
  "n \<noteq> NaN \<Longrightarrow> dt_num (JNum (Math_max (Fin 8) (Math_round n))) = Math_max (Fin 8) (Math_round n)"
proof (cases n)
  case (Fin r)
  have "\<lfloor>r + 1 / 2\<rfloor> = 0 \<Longrightarrow> \<not> 8 \<le> r + 1 / 2" by linarith
  then show ?thesis using Fin by (auto simp: dt_num_def Math_max_def)
qed (simp_all add: dt_num_def Math_max_def)

lemma clamped_typed:
  assumes "typed_timeline T"
  shows "typed_timeline (clamped defs T)"
proof -
  from assms obtain kvs where T: "T = JObj kvs"
    by (cases T) (simp_all add: typed_timeline_def)
  show ?thesis
  proof (cases "own kvs ''mode'' = JStr ''keyframes''")
    case True
    with assms T obtain kfs where k: "js_or (own kvs ''keyframes'') (JArr []) = JArr kfs"
      by (cases "js_or (own kvs ''keyframes'') (JArr [])")
         (simp_all add: typed_timeline_def del: own.simps)
    show ?thesis
      using True k T
      by (simp add: typed_timeline_def clamped_def own_setp list_all_iff timed_clamped_keyframe
          js_or_def del: own.simps)
  next
    case False
    with assms T have m: "own kvs ''mode'' = JStr ''fixed_fps''"
      by (simp add: typed_timeline_def del: own.simps split: if_splits)
    with assms T False obtain fk where f: "own kvs ''fixedFps'' = JObj fk"
      by (cases "own kvs ''fixedFps''") (simp_all add: typed_timeline_def del: own.simps)
    with assms T False m obtain fs where fr: "own fk ''frames'' = JArr fs"
      by (cases "own fk ''frames''") (simp_all add: typed_timeline_def del: own.simps)
    have "num_or_absent (JNum (Math_max (Fin 8) (Math_round (dt_num (own fk ''dtMs'')))))"
      using floor_round_not_NaN [OF dt_num_not_NaN] by (simp add: num_or_absent_def)
    then show ?thesis
      using False m f fr T
      by (simp add: typed_timeline_def clamped_def own_setp del: own.simps)
  qed
qed

lemma clamped_idem:
  assumes "typed_timeline T"
  shows "clamped defs (clamped defs T) = clamped defs T"
proof -
  from assms obtain kvs where T: "T = JObj kvs"
    by (cases T) (simp_all add: typed_timeline_def)
  show ?thesis
  proof (cases "own kvs ''mode'' = JStr ''keyframes''")
    case True
    with assms T obtain kfs where k: "js_or (own kvs ''keyframes'') (JArr []) = JArr kfs"
      by (cases "js_or (own kvs ''keyframes'') (JArr [])")
         (simp_all add: typed_timeline_def del: own.simps)
    show ?thesis
      using True k T
      by (simp add: clamped_def own_setp setp_setp clamped_keyframe_comp js_or_def del: own.simps)
  next
    case False
    with assms T have m: "own kvs ''mode'' = JStr ''fixed_fps''"
      by (simp add: typed_timeline_def del: own.simps split: if_splits)
    with assms T False obtain fk where f: "own kvs ''fixedFps'' = JObj fk"
      by (cases "own kvs ''fixedFps''") (simp_all add: typed_timeline_def del: own.simps)
    with assms T False m obtain fs where fr: "own fk ''frames'' = JArr fs"
      by (cases "own fk ''frames''") (simp_all add: typed_timeline_def del: own.simps)
    let ?n = "Math_max (Fin 8) (Math_round (dt_num (own fk ''dtMs'')))"
    let ?d = "JNum ?n"
    let ?F = "JArr (map (clampMap defs) fs)"
    let ?fk = "setp (setp fk ''dtMs'' ?d) ''frames'' ?F"
    have c: "clamped defs T = JObj (setp kvs ''fixedFps'' (JObj ?fk))"
      using False m f fr T by (simp add: clamped_def del: own.simps)
    have "Math_max (Fin 8) (Math_round (dt_num ?d)) = Math_max (Fin 8) (Math_round ?n)"
      by (simp only: dt_num_floor [OF dt_num_not_NaN])
    also have "\<dots> = ?n"
      using floor_round_idem [of 8 "dt_num (own fk ''dtMs'')"] by simp
    finally have d: "Math_max (Fin 8) (Math_round (dt_num ?d)) = ?n" .
    have s1: "setp ?fk ''dtMs'' ?d = ?fk"
      by (rule setp_same) (simp add: map_of_setp)
    have s2: "setp ?fk ''frames'' ?F = ?fk"
      by (rule setp_same) (simp add: map_of_setp)
    have "clamped defs (JObj (setp kvs ''fixedFps'' (JObj ?fk))) = JObj (setp kvs ''fixedFps'' (JObj ?fk))"
      using False m
      by (simp add: clamped_def own_setp setp_setp d s1 s2 clampMap_comp del: own.simps)
    then show ?thesis by (simp only: c)
  qed
qed

lemma clamp_value_not_NaN: "def_ok d \<Longrightarrow> n \<noteq> NaN \<Longrightarrow> clamp_value d n \<noteq> NaN"
  by (cases "def_min d"; cases "def_max d"; cases n)
     (simp_all add: def_ok_def clamp_value_def clamp_def Math_max_def Math_min_def Let_def)

lemma clamp_between:
  assumes "js_le a b" and "n \<noteq> NaN"
  shows "js_le a (clamp n a b) \<and> js_le (clamp n a b) b"
  using assms
  by (cases a; cases b; cases n) (auto simp: clamp_def Math_max_def Math_min_def)

lemma clamp_not_NaN: "a \<noteq> NaN \<Longrightarrow> b \<noteq> NaN \<Longrightarrow> n \<noteq> NaN \<Longrightarrow> clamp n a b \<noteq> NaN"
  by (cases a; cases b; cases n) (simp_all add: clamp_def Math_max_def Math_min_def)

lemma clamp_choice: "a \<noteq> NaN \<Longrightarrow> b \<noteq> NaN \<Longrightarrow> n \<noteq> NaN \<Longrightarrow>
    (\<exists>r. clamp n a b = Fin r) \<or> clamp n a b = a \<or> clamp n a b = b"
  by (cases a; cases b; cases n) (auto simp: clamp_def Math_max_def Math_min_def)

lemma Math_round_mono: "js_le x y \<Longrightarrow> js_le (Math_round x) (Math_round y)"
  by (cases x; cases y) (simp_all add: round_mono)

lemma value_ok_clamp_value:
  assumes "byId defs k = Some d" and "n \<noteq> NaN" and "def_ok d"
  shows "value_ok defs (k, JNum (clamp_value d n))"
proof -
  let ?c = "clamp n (def_min d) (def_max d)"
  have nn: "clamp_value d n \<noteq> NaN"
    using assms(2,3) by (rule clamp_value_not_NaN[rotated])
  have b: "js_le (def_min d) (def_max d) \<Longrightarrow> js_le (def_min d) ?c \<and> js_le ?c (def_max d)"
    using assms(2) by (simp add: clamp_between)
  have r: "js_le (def_min d) (def_max d) \<Longrightarrow>
       js_le (Math_round (def_min d)) (Math_round ?c) \<and> js_le (Math_round ?c) (Math_round (def_max d))"
    using b by (simp add: Math_round_mono)
  have "(\<exists>r. ?c = Fin r) \<or> ?c = def_min d \<or> ?c = def_max d"
    using assms(2,3) by (intro clamp_choice) (simp_all add: def_ok_def)
  moreover have "?c \<noteq> NaN"
    using assms(2,3) by (intro clamp_not_NaN) (simp_all add: def_ok_def)
  ultimately have i: "integral (Math_round ?c)
      \<or> ((Math_round ?c = PInf \<or> Math_round ?c = NInf)
          \<and> (Math_round ?c = def_min d \<or> Math_round ?c = def_max d))"
    by (cases ?c) (auto simp: integral_def)
  show ?thesis
  proof (cases "isToggleLike d")
    case True
    then have "clamp_value d n = Math_round ?c" by (simp add: clamp_value_def)
    then show ?thesis using assms(1) True nn r i by (simp add: value_ok_def)
  next
    case False
    then have "clamp_value d n = ?c" by (simp add: clamp_value_def)
    then show ?thesis using assms(1) False nn b by (simp add: value_ok_def)
  qed
qed

lemma stored_value_ok:
  assumes "stored defs (\<lambda>n. n \<noteq> NaN) out" and "list_all def_ok defs"
  shows "list_all (value_ok defs) out"
proof -
  have d: "\<And>k d. byId defs k = Some d \<Longrightarrow> def_ok d"
  proof -
    fix k d assume "byId defs k = Some d"
    then have "d \<in> set defs" by (auto simp: byId_def dest!: map_of_SomeD)
    then show "def_ok d" using assms(2) by (simp add: list_all_iff)
  qed
  show ?thesis
    using assms(1) d
    by (auto simp: stored_def list_all_iff value_ok_clamp_value)
qed

lemma is_json_own: "is_json (JObj kvs) \<Longrightarrow> json_or_absent (own kvs k)"
  by (auto simp: json_or_absent_def list_all_iff split: option.splits dest!: map_of_SomeD)

lemma is_json_getp_opt: "is_json v \<Longrightarrow> json_or_absent (getp_opt v k)"
  using is_json_own by (cases v) (auto simp: json_or_absent_def simp del: own.simps)

lemma json_entries:
  assumes "json_or_absent v" and "(k, x) \<in> set (entries (js_or v (JObj [])))"
  shows "x \<noteq> JNum NaN"
proof -
  have "is_json x"
    using assms
    by (cases v) (auto simp: json_or_absent_def js_or_def list_all_iff split: if_splits dest!: set_zip_rightD)
  then show ?thesis by auto
qed

lemma params_ok_clampMap:
  assumes "json_or_absent v" and "list_all def_ok defs"
  shows "params_ok defs (clampMap defs v)"
proof -
  have "stored defs (\<lambda>n. n \<noteq> NaN) (clampMap_loop defs (entries (js_or v (JObj []))) [])"
    using json_entries[OF assms(1)] by (intro stored_loop stored_Nil) auto
  then show ?thesis using assms(2) by (simp add: params_ok_def clampMap_def stored_value_ok)
qed

lemma json_params_of: "is_json kf \<Longrightarrow> json_or_absent (params_of kf)"
  by (simp add: params_of_def is_json_getp_opt)

lemma floor_round_ge: "n \<noteq> NaN \<Longrightarrow> js_le (Fin c) (Math_max (Fin c) (Math_round n))"
  by (cases n) (simp_all add: Math_max_def)

lemma keyframe_ok_clamped:
  "is_json kf \<Longrightarrow> list_all def_ok defs \<Longrightarrow> keyframe_ok defs (clamped_keyframe defs kf)"
  using floor_round_ge [OF time_num_not_NaN, of 0 kf]
  by (simp add: keyframe_ok_def clamped_keyframe_def params_ok_clampMap json_params_of)

lemma post_valid_clamped:
  assumes "typed_timeline T" and "is_json T" and "list_all def_ok defs"
  shows "post_valid defs (clamped defs T)"
proof -
  from assms obtain kvs where T: "T = JObj kvs"
    by (cases T) (simp_all add: typed_timeline_def)
  show ?thesis
  proof (cases "own kvs ''mode'' = JStr ''keyframes''")
    case True
    with assms T obtain kfs where k: "js_or (own kvs ''keyframes'') (JArr []) = JArr kfs"
      by (cases "js_or (own kvs ''keyframes'') (JArr [])")
         (simp_all add: typed_timeline_def del: own.simps)
    have "json_or_absent (own kvs ''keyframes'')"
      using is_json_own[of kvs "''keyframes''"] assms(2) T by simp
    then have "is_json (JArr kfs)"
      using k by (auto simp: json_or_absent_def js_or_def split: if_splits)
    then have "list_all (keyframe_ok defs) (map (clamped_keyframe defs) kfs)"
      using assms(3) by (simp add: list_all_iff keyframe_ok_clamped)
    then show ?thesis
      using True k T
      by (simp add: post_valid_def clamped_def own_setp del: own.simps)
  next
    case False
    with assms T have m: "own kvs ''mode'' = JStr ''fixed_fps''"
      by (simp add: typed_timeline_def del: own.simps split: if_splits)
    with assms T False obtain fk where f: "own kvs ''fixedFps'' = JObj fk"
      by (cases "own kvs ''fixedFps''") (simp_all add: typed_timeline_def del: own.simps)
    with assms T False m obtain fs where fr: "own fk ''frames'' = JArr fs"
      by (cases "own fk ''frames''") (simp_all add: typed_timeline_def del: own.simps)
    have "is_json (JObj fk)"
      using is_json_own[of kvs "''fixedFps''"] assms(2) T f by (simp add: json_or_absent_def del: own.simps)
    then have "is_json (JArr fs)"
      using is_json_own[of fk "''frames''"] fr by (simp add: json_or_absent_def del: own.simps)
    then have "list_all (params_ok defs) (map (clampMap defs) fs)"
      using assms(3) by (simp add: list_all_iff params_ok_clampMap json_or_absent_def)
    moreover have "js_le (Fin 8) (Math_max (Fin 8) (Math_round (dt_num (own fk ''dtMs''))))"
      by (rule floor_round_ge [OF dt_num_not_NaN])
    ultimately show ?thesis
      using False m f fr T
      by (simp add: post_valid_def clamped_def own_setp del: own.simps)
  qed
qed

lemma clampMap_loop_numbers:
  "clampMap_loop defs (filter (\<lambda>kv. is_number (snd kv)) es) out = clampMap_loop defs es out"
proof (induction es arbitrary: out)
  case Nil
  then show ?case by simp
next
  case (Cons e es)
  obtain k v where e: "e = (k, v)" by (cases e)
  show ?case using Cons.IH e by (cases v) (simp_all split: option.splits)
qed

lemma clampTimeline_passed_through:
  assumes "passed_through T"
  shows "clampTimeline E T D = Inr T"
  using assms by (auto simp: passed_through_def clampTimeline_def clampTimeline_run_def)

section \<open>The frame step of a fixed-rate timeline\<close>

text \<open>
  C8, as stated, at \<open>dtMs = 0\<close>: rounding and flooring at 8 would give 8, but \<open>0 || 1000/60\<close>
  takes the default step first and the output has \<open>dtMs = 17\<close>.
\<close>

theorem dtMs_zero_becomes_17:
  "clampTimeline plain_engine
     (JObj [(''mode'', JStr ''fixed_fps''),
            (''fixedFps'', JObj [(''dtMs'', JNum (Fin 0)), (''frames'', JArr [JObj []])])]) []
   = Inr (JObj [(''mode'', JStr ''fixed_fps''),
                (''fixedFps'', JObj [(''dtMs'', JNum (Fin 17)), (''frames'', JArr [JObj []])])])
   \<and> Math_max (Fin 8) (Math_round (Fin 0)) = Fin 8"
  by (simp add: clampTimeline_def clampTimeline_run_def js_or_def clampMap_def Math_max_def)

text \<open>
  C8, amended: for a fixed-rate timeline whose \<open>dtMs\<close> is a number \<open>n\<close>, the call returns and the
  output \<open>dtMs\<close> is \<open>n\<close> rounded to the nearest integer and floored at 8 when \<open>n\<close> is neither 0
  nor NaN, and 17 (the default step \<open>1000/60\<close>, rounded) when it is.
\<close>

theorem clampTimeline_dtMs:
  assumes "own kvs ''mode'' = JStr ''fixed_fps''"
    and "own kvs ''fixedFps'' = JObj fkvs"
    and "own fkvs ''frames'' = JArr fs"
    and "own fkvs ''dtMs'' = JNum n"
  shows "\<exists>T'. clampTimeline E (JObj kvs) defs = Inr T'
      \<and> getp_opt (getp_opt T' ''fixedFps'') ''dtMs''
          = JNum (if n = Fin 0 \<or> n = NaN then Fin 17 else Math_max (Fin 8) (Math_round n))"
  using assms
  by (cases n)
     (auto simp add: clampTimeline_def clampTimeline_run_def js_or_def Let_def own_setp Math_max_def
           simp del: own.simps)

theorem clampTimeline_dtMs_witness:
  "own [(''mode'', JStr ''fixed_fps''),
        (''fixedFps'', JObj [(''dtMs'', JNum (Fin 3)), (''frames'', JArr [])])] ''mode''
     = JStr ''fixed_fps''
   \<and> own [(''mode'', JStr ''fixed_fps''),
          (''fixedFps'', JObj [(''dtMs'', JNum (Fin 3)), (''frames'', JArr [])])] ''fixedFps''
     = JObj [(''dtMs'', JNum (Fin 3)), (''frames'', JArr [])]
   \<and> own [(''dtMs'', JNum (Fin 3)), (''frames'', JArr [])] ''frames'' = JArr []
   \<and> own [(''dtMs'', JNum (Fin 3)), (''frames'', JArr [])] ''dtMs'' = JNum (Fin 3)
   \<and> (\<exists>T'. clampTimeline plain_engine
            (JObj [(''mode'', JStr ''fixed_fps''),
                   (''fixedFps'', JObj [(''dtMs'', JNum (Fin 3)), (''frames'', JArr [])])]) []
            = Inr T'
          \<and> getp_opt (getp_opt T' ''fixedFps'') ''dtMs'' = JNum (Fin 8))"
  using clampTimeline_dtMs
    [of "[(''mode'', JStr ''fixed_fps''),
          (''fixedFps'', JObj [(''dtMs'', JNum (Fin 3)), (''frames'', JArr [])])]"
        "[(''dtMs'', JNum (Fin 3)), (''frames'', JArr [])]" "[]" "Fin 3" plain_engine "[]"]
  by (simp add: Math_max_def)

section \<open>Keyframes read from \<open>params\<close> or from \<open>set\<close>\<close>

text \<open>
  C10: in keyframes mode each keyframe's map is read from \<open>params\<close> and, when that is absent or
  falsy, from \<open>set\<close>; the output keyframe has exactly the keys \<open>timeMs\<close> and \<open>params\<close>, the
  clamped map under \<open>params\<close>.
\<close>

theorem clampTimeline_params_or_set:
  assumes "own kvs ''mode'' = JStr ''keyframes''"
    and "own kvs ''keyframes'' = JArr kfs"
    and "\<forall>kf \<in> set kfs. typed_kf kf"
  shows "clampTimeline E (JObj kvs) defs
     = Inr (JObj (setp kvs ''keyframes'' (JArr (map (\<lambda>kf.
         JObj [(''timeMs'', JNum (Fin (max 0 (of_int \<lfloor>time_of kf + 1 / 2\<rfloor>)))),
               (''params'', clampMap defs
                  (if truthy (getp_opt kf ''params'') then getp_opt kf ''params''
                   else getp_opt kf ''set''))]) kfs))))"
proof -
  have "mapE (clampKeyframe E defs) kfs = Inr (map (clamped_keyframe defs) kfs)"
    using assms(3) by (intro mapE_Inr clampKeyframe_timed typed_kf_timed) simp
  moreover have "map (clamped_keyframe defs) kfs = map (\<lambda>kf.
         JObj [(''timeMs'', JNum (Fin (max 0 (of_int \<lfloor>time_of kf + 1 / 2\<rfloor>)))),
               (''params'', clampMap defs
                  (if truthy (getp_opt kf ''params'') then getp_opt kf ''params''
                   else getp_opt kf ''set''))]) kfs"
    using assms(3)
    by (intro map_cong refl) (simp add: clamped_keyframe_def params_of_def time_num_typed Math_max_Fin)
  ultimately show ?thesis
    using assms(1,2)
    by (simp add: clampTimeline_def clampTimeline_run_def js_or_def del: own.simps)
qed

theorem clampTimeline_params_or_set_witness:
  "clampTimeline plain_engine set_example [ParamX]
     = Inr (JObj [(''mode'', JStr ''keyframes''),
                  (''keyframes'',
                   JArr [JObj [(''timeMs'', JNum (Fin 10)),
                               (''params'', JObj [(''ParamX'', JNum (Fin 1))])]])])"
  using clampTimeline_params_or_set
    [of "[(''mode'', JStr ''keyframes''),
          (''keyframes'',
            JArr [JObj [(''timeMs'', JNum (Fin 10)),
                        (''set'', JObj [(''ParamX'', JNum (Fin 5))])]])]"
        "[JObj [(''timeMs'', JNum (Fin 10)), (''set'', JObj [(''ParamX'', JNum (Fin 5))])]]"
        plain_engine "[ParamX]"]
  by (simp add: set_example_def typed_kf_def time_of_def clampMap_def js_or_def byId_def ParamX_def
      clamp_def Math_max_def Math_min_def assign_def)

section \<open>Idempotence\<close>

text \<open>
  C6, as stated, on a timeline in keyframes mode whose only keyframe has an object for
  \<open>timeMs\<close>: the handler's shape test accepts it, the first clamp leaves NaN as its \<open>timeMs\<close>
  and the second clamp, reading NaN as absent, leaves 0.
\<close>

theorem clampTimeline_twice_differs:
  "recognized untimed_keyframes
   \<and> clampTimeline plain_engine untimed_keyframes []
     = Inr (JObj [(''mode'', JStr ''keyframes''),
                  (''keyframes'', JArr [JObj [(''timeMs'', JNum NaN), (''params'', JObj [])]])])
   \<and> clampTimeline plain_engine
       (JObj [(''mode'', JStr ''keyframes''),
              (''keyframes'', JArr [JObj [(''timeMs'', JNum NaN), (''params'', JObj [])]])]) []
     = Inr (JObj [(''mode'', JStr ''keyframes''),
                  (''keyframes'', JArr [JObj [(''timeMs'', JNum (Fin 0)), (''params'', JObj [])]])])
   \<and> clampTimeline plain_engine
       (JObj [(''mode'', JStr ''keyframes''),
              (''keyframes'', JArr [JObj [(''timeMs'', JNum NaN), (''params'', JObj [])]])]) []
     \<noteq> Inr (JObj [(''mode'', JStr ''keyframes''),
                  (''keyframes'', JArr [JObj [(''timeMs'', JNum NaN), (''params'', JObj [])]])])"
  by (simp add: untimed_keyframes_def clampTimeline_def clampTimeline_run_def js_or_def clampMap_def
      clampKeyframe_def bindE_def Math_max_def recognized_def)

text \<open>
  C6, amended: for every timeline of one of the two shapes whose time fields are numbers or
  absent, whatever its parameter maps, for every value that the clamp hands back as it is,
  and for every definition list, clamping returns a timeline that a second clamp against
  the same definitions returns unchanged.
\<close>

theorem clampTimeline_idempotent:
  assumes "typed_timeline T \<or> passed_through T"
  shows "\<exists>T'. clampTimeline E T D = Inr T' \<and> clampTimeline E T' D = Inr T'"
  using assms
proof
  assume t: "typed_timeline T"
  have 1: "clampTimeline E T D = Inr (clamped D T)"
    using t by (simp add: clampTimeline_def clampTimeline_run_typed)
  have "clampTimeline E (clamped D T) D = Inr (clamped D (clamped D T))"
    using clamped_typed[OF t] by (simp add: clampTimeline_def clampTimeline_run_typed)
  then have "clampTimeline E (clamped D T) D = Inr (clamped D T)"
    by (simp add: clamped_idem[OF t])
  with 1 show ?thesis by blast
next
  assume "passed_through T"
  then show ?thesis by (simp add: clampTimeline_passed_through)
qed

theorem clampTimeline_idempotent_witness:
  "typed_timeline keyed_example
   \<and> (\<exists>T'. clampTimeline plain_engine keyed_example [ParamX] = Inr T'
          \<and> clampTimeline plain_engine T' [ParamX] = Inr T')
   \<and> passed_through JNull
   \<and> (\<exists>T'. clampTimeline plain_engine JNull [ParamX] = Inr T'
          \<and> clampTimeline plain_engine T' [ParamX] = Inr T')"
proof -
  have 1: "typed_timeline keyed_example"
    by (simp add: keyed_example_def typed_timeline_def timed_kf_def num_or_absent_def js_or_def)
  have 2: "passed_through JNull" by (simp add: passed_through_def)
  show ?thesis
    using clampTimeline_idempotent [of keyed_example plain_engine "[ParamX]"]
      clampTimeline_idempotent [of JNull plain_engine "[ParamX]"] 1 2
    by blast
qed

section \<open>The invariant after validation\<close>

text \<open>
  C4, as stated, for a categorical parameter with range \<open>[0.2, 0.8]\<close>: the value 0.3 is inside
  the range, is rounded to 0 and leaves the range.
\<close>

theorem toggle_value_leaves_range:
  "clampTimeline plain_engine toggle_example [ParamT]
   = Inr (JObj [(''mode'', JStr ''fixed_fps''),
                (''fixedFps'', JObj [(''dtMs'', JNum (Fin 17)),
                                     (''frames'', JArr [JObj [(''ParamT'', JNum (Fin 0))]])])])
   \<and> byId [ParamT] ''ParamT'' = Some ParamT
   \<and> js_lt (Fin 0) (def_min ParamT)"
  by (simp add: toggle_example_def ParamT_def clampTimeline_def clampTimeline_run_def js_or_def
      clampMap_def Math_max_def Math_min_def byId_def clamp_def assign_def)

text \<open>
  C4, amended: for every parsed timeline of one of the two shapes whose time fields are
  numbers or absent and every list of definitions as the parser builds them, with bounds
  that may be infinite, the clamp returns a timeline in which every retained parameter id
  has a definition; every value of a continuous parameter with \<open>min \<le> max\<close> lies in
  \<open>[min, max]\<close>; every value of a categorical parameter is an integer or an infinite bound of
  its definition, between \<open>round(min)\<close> and \<open>round(max)\<close> when \<open>min \<le> max\<close>; every \<open>timeMs\<close> is
  at least 0; and \<open>dtMs\<close> is at least 8.
\<close>

theorem clampTimeline_post_valid:
  assumes "typed_timeline T" and "is_json T" and "list_all def_ok D"
  shows "\<exists>T'. clampTimeline E T D = Inr T' \<and> post_valid D T'"
  using assms by (simp add: clampTimeline_def clampTimeline_run_typed post_valid_clamped)

theorem clampTimeline_post_valid_witness:
  "typed_timeline toggle_example \<and> is_json toggle_example \<and> list_all def_ok [ParamT]
   \<and> (\<exists>T'. clampTimeline plain_engine toggle_example [ParamT] = Inr T' \<and> post_valid [ParamT] T')"
  using clampTimeline_post_valid [of toggle_example "[ParamT]" plain_engine]
  by (simp add: toggle_example_def typed_timeline_def num_or_absent_def def_ok_def ParamT_def)

section \<open>The timeline object is updated in place\<close>

text \<open>
  C3, as stated, on the store holding the keyframes example at address 0: the call returns
  the reference it was given, and the object behind it has changed.
\<close>

theorem clampTimeline_mutates_input:
  "snd (clampTimeline_ref plain_engine example_store 0 [ParamX]) = Inr 0
   \<and> fst (clampTimeline_ref plain_engine example_store 0 [ParamX]) 0
       = JObj [(''mode'', JStr ''keyframes''),
               (''keyframes'',
                JArr [JObj [(''timeMs'', JNum (Fin 0)),
                            (''params'', JObj [(''ParamX'', JNum (Fin 1))])]])]
   \<and> fst (clampTimeline_ref plain_engine example_store 0 [ParamX]) 0 \<noteq> example_store 0"
  by (simp add: example_store_def keyed_example_def ParamX_def clampTimeline_ref_def
      clampTimeline_run_def js_or_def clampMap_def Math_max_def Math_min_def clampKeyframe_def
      bindE_def byId_def clamp_def assign_def)

text \<open>
  C3, amended: for a timeline of one of the two shapes with numeric time fields, the call does
  not raise; it writes the clamped content into the timeline object it was given, leaves the
  rest of the store alone and returns the same reference; and a parameter map clamps as the
  map without its non-numeric entries does.
\<close>

theorem clampTimeline_in_place:
  assumes "typed_timeline (h a)"
  shows "\<exists>T'. clampTimeline E (h a) D = Inr T'
        \<and> clampTimeline_ref E h a D = (h(a := T'), Inr a)
        \<and> clampMap D (JObj kvs) = clampMap D (JObj (filter (\<lambda>kv. is_number (snd kv)) kvs))"
  using assms
  by (simp add: clampTimeline_def clampTimeline_ref_def clampTimeline_run_typed clampMap_def
      js_or_def clampMap_loop_numbers)

theorem clampTimeline_in_place_witness:
  "typed_timeline (example_store 0)
   \<and> (\<exists>T'. clampTimeline plain_engine (example_store 0) [ParamX, ParamT] = Inr T'
        \<and> clampTimeline_ref plain_engine example_store 0 [ParamX, ParamT] = (example_store(0 := T'), Inr 0)
        \<and> clampMap [ParamX, ParamT] (JObj [(''ParamT'', JStr ''high''), (''ParamX'', JNum (Fin 2))])
            = clampMap [ParamX, ParamT] (JObj [(''ParamX'', JNum (Fin 2))]))"
  using clampTimeline_in_place
    [of example_store 0 plain_engine "[ParamX, ParamT]"
        "[(''ParamT'', JStr ''high''), (''ParamX'', JNum (Fin 2))]"]
  by (simp add: example_store_def keyed_example_def typed_timeline_def timed_kf_def
      num_or_absent_def js_or_def)

section \<open>The fallback synthesizer\<close>

lemma frame_empty: "frame E [] [] t = Inr (JObj [])"
  by (simp add: frame_def has_def)

lemma frames_loop_one:
  assumes "0 < d"
  shows "frames_loop E [] [] (Fin 0) (Fin d) (Fin 0) [] = Some (Inr [JObj []])"
proof -
  have "frames_loop E [] [] (Fin 0) (Fin d) (Fin 0) []
      = frames_loop E [] [] (Fin 0) (Fin d) (Fin d) [JObj []]"
    by (subst frames_loop.simps) (simp add: frame_empty max_array_length_def)
  also have "\<dots> = Some (Inr [JObj []])"
    using assms by (subst frames_loop.simps) simp
  finally show ?thesis .
qed

lemma frames_loop_stuck_aux:
  assumes "frames_loop E ws ds dur dt t fr = Some y"
  shows "ws = [] \<and> ds = [] \<and> dur = Fin 0 \<and> dt = Fin 0 \<and> t = Fin 0 \<longrightarrow> y = Inl RangeError"
proof (rule frames_loop.raw_induct
    [where P = "\<lambda>E ws ds dur dt t fr y.
        ws = [] \<and> ds = [] \<and> dur = Fin 0 \<and> dt = Fin 0 \<and> t = Fin 0 \<longrightarrow> y = Inl RangeError",
      OF _ assms])
  fix loop E words defs dur dtMs t frames y
  assume IH: "\<And>E words defs dur dtMs t frames y.
        loop E words defs dur dtMs t frames = Some y \<Longrightarrow>
        words = [] \<and> defs = [] \<and> dur = Fin 0 \<and> dtMs = Fin 0 \<and> t = Fin 0 \<longrightarrow> y = Inl RangeError"
    and eq: "(if js_le t dur
      then case frame E words defs t of Inl e \<Rightarrow> Some (Inl e)
           | Inr f \<Rightarrow>
               if heap_room E < length frames then None
               else if max_array_length \<le> length frames then Some (Inl RangeError)
               else loop E words defs dur dtMs (js_add t dtMs) (frames @ [f])
      else Some (Inr frames)) = Some y"
  show "words = [] \<and> defs = [] \<and> dur = Fin 0 \<and> dtMs = Fin 0 \<and> t = Fin 0 \<longrightarrow> y = Inl RangeError"
  proof
    assume a: "words = [] \<and> defs = [] \<and> dur = Fin 0 \<and> dtMs = Fin 0 \<and> t = Fin 0"
    show "y = Inl RangeError"
    proof (cases "heap_room E < length frames \<or> max_array_length \<le> length frames")
      case True
      with eq a show ?thesis by (auto simp: frame_empty split: if_splits)
    next
      case False
      with eq a have "loop E [] [] (Fin 0) (Fin 0) (Fin 0) (frames @ [JObj []]) = Some y"
        by (simp add: frame_empty)
      from IH[OF this] show ?thesis by simp
    qed
  qed
qed

text \<open>
  With a step of 0 the loop of the synthesizer hands no array back: it fills the heap, or the
  array reaches its greatest length.
\<close>

lemma frames_loop_stuck: "frames_loop E [] [] (Fin 0) (Fin 0) (Fin 0) frames \<noteq> Some (Inr fs)"
  using frames_loop_stuck_aux [of E "[]" "[]" "Fin 0" "Fin 0" "Fin 0" frames "Inr fs"] by auto

lemma fallback_fps_5000: "simpleFallbackTimeline E [] [] [] (JNum (Fin 5000)) \<noteq> Some (Inr T)"
  using frames_loop_stuck [of E "[]"]
  by (auto simp: simpleFallbackTimeline_def Math_max_def Let_def split: option.splits sum.splits)

text \<open>
  C5, as stated, at \<open>fps = 200\<close>: the call returns one empty frame, with \<open>dtMs = 5\<close>, below 8.
\<close>

theorem fallback_fps_200_dtMs_5:
  "simpleFallbackTimeline plain_engine [] [] [] (JNum (Fin 200))
   = Some (Inr (JObj [(''mode'', JStr ''fixed_fps''),
                      (''fixedFps'', JObj [(''dtMs'', JNum (Fin 5)), (''frames'', JArr [JObj []])])]))
   \<and> (5 :: real) < 8"
  by (simp add: simpleFallbackTimeline_def Math_max_def frames_loop.simps frame_empty
      max_array_length_def plain_engine_def)

text \<open>
  C5, amended: for every number \<open>fps \<le> 2000\<close>, the synthesizer on empty words, visemes and
  definitions returns without raising a fixed-rate timeline of exactly one frame with no
  parameter, with \<open>dtMs = round(1000 / max(1, fps))\<close>; this is at least 8 when
  \<open>fps \<le> 400/3\<close>.
\<close>

theorem fallback_empty:
  assumes "r \<le> 2000"
  shows "simpleFallbackTimeline E [] [] [] (JNum (Fin r))
     = Some (Inr (JObj [(''mode'', JStr ''fixed_fps''),
          (''fixedFps'', JObj [(''dtMs'', JNum (Fin (of_int \<lfloor>1000 / max 1 r + 1 / 2\<rfloor>))),
                               (''frames'', JArr [JObj []])])]))
     \<and> (r \<le> 400 / 3 \<longrightarrow> (8::real) \<le> of_int \<lfloor>1000 / max 1 r + 1 / 2\<rfloor>)"
proof -
  have m: "Math_max (Fin 1) (Fin r) = Fin (max 1 r)" by (simp add: Math_max_def max_def)
  have "1 / 2 \<le> 1000 / max 1 r" using assms by (simp add: field_simps max_def)
  then have "1 \<le> \<lfloor>1000 / max 1 r + 1 / 2\<rfloor>" by linarith
  then have pos: "0 < real_of_int \<lfloor>1000 / max 1 r + 1 / 2\<rfloor>" by linarith
  have b: "r \<le> 400 / 3 \<Longrightarrow> (8::real) \<le> of_int \<lfloor>1000 / max 1 r + 1 / 2\<rfloor>"
  proof -
    assume "r \<le> 400 / 3"
    then have "15 / 2 \<le> 1000 / max 1 r" by (simp add: field_simps max_def)
    then have "8 \<le> \<lfloor>1000 / max 1 r + 1 / 2\<rfloor>" by linarith
    then show ?thesis by linarith
  qed
  have d: "Math_round (js_div (Fin 1000) (Math_max (Fin 1) (Fin r)))
      = Fin (of_int \<lfloor>1000 / max 1 r + 1 / 2\<rfloor>)"
  proof -
    have "max 1 r \<noteq> 0" by (simp add: max_def)
    then show ?thesis by (simp add: m)
  qed
  have z: "Math_max (Fin 0) (Fin 0) = Fin 0" by (simp add: Math_max_def)
  show ?thesis
    using b by (simp add: simpleFallbackTimeline_def Let_def d z frames_loop_one[OF pos])
qed

theorem fallback_empty_witness:
  "(60::real) \<le> 2000
   \<and> simpleFallbackTimeline plain_engine [] [] [] (JNum (Fin 60))
     = Some (Inr (JObj [(''mode'', JStr ''fixed_fps''),
          (''fixedFps'', JObj [(''dtMs'', JNum (Fin 17)), (''frames'', JArr [JObj []])])]))"
  using fallback_empty [of 60 plain_engine] by simp

text \<open>
  C9 at a word whose text is \<open>3.5\<close>: the text does not end in \<open>.\<close>, \<open>!\<close> or \<open>?\<close>, and both frames
  carry the nod, since the test is for one of these characters anywhere in the text.
\<close>

theorem nod_without_final_punctuation:
  "simpleFallbackTimeline plain_engine [decimal_word] [] [ParamAngleY] (JNum (Fin 60))
   = Some (Inr (JObj [(''mode'', JStr ''fixed_fps''),
        (''fixedFps'',
         JObj [(''dtMs'', JNum (Fin 17)),
               (''frames'', JArr [JObj [(''ParamAngleY'', JNum (Fin 3))],
                                  JObj [(''ParamAngleY'', JNum (Fin 3))]])])]))
   \<and> getp_opt decimal_word ''text'' = JStr ''3.5'' \<and> last ''3.5'' = CHR ''5''"
  by (simp add: simpleFallbackTimeline_def Math_max_def frames_loop.simps frame_def has_def
      ParamAngleY_def decimal_word_def is_end_def test_punct_def bindE_def js_or_def js_sub_def
      max_array_length_def plain_engine_def)

section \<open>The handler answers typed requests\<close>

lemma num_or_absent_ToNumber:
  assumes "num_or_absent v"
  shows "\<exists>n. ToNumber E (js_or v (JNum (Fin 0))) = Inr n"
  using assms by (cases v) (simp_all add: num_or_absent_def js_or_def)

lemma time_within_ToNumber:
  assumes "time_within L v"
  shows "\<exists>r. ToNumber E (js_or v (JNum (Fin 0))) = Inr (Fin r) \<and> r \<le> real L"
proof (cases v)
  case (JNum n)
  then show ?thesis using assms by (cases n) (simp_all add: time_within_def js_or_def)
qed (use assms in \<open>simp_all add: time_within_def js_or_def\<close>)

lemma max_over_typed:
  assumes "list_all (\<lambda>w. \<exists>kvs. w = JObj kvs \<and> time_within L (own kvs k)) ws"
    and "0 \<le> m" and "m \<le> real L"
  shows "\<exists>r. max_over E k ws (Fin m) = Inr (Fin r) \<and> 0 \<le> r \<and> r \<le> real L"
  using assms
proof (induction ws arbitrary: m)
  case Nil
  then show ?case by simp
next
  case (Cons w ws)
  then obtain kvs where w: "w = JObj kvs" and t: "time_within L (own kvs k)" by auto
  from time_within_ToNumber[OF t] obtain r where
    r: "ToNumber E (js_or (own kvs k) (JNum (Fin 0))) = Inr (Fin r)" and rL: "r \<le> real L"
    by blast
  have "max_over E k (w # ws) (Fin m) = max_over E k ws (Fin (max m r))"
    using w r by (simp add: bindE_def Math_max_Fin del: own.simps)
  moreover have "0 \<le> max m r" using Cons.prems(2) by simp
  moreover have "max m r \<le> real L" using Cons.prems(3) rL by simp
  ultimately show ?case using Cons.IH[of "max m r"] Cons.prems(1) by simp
qed

lemma test_punct_typed: "typed_text v \<Longrightarrow> \<exists>p. test_punct E v = Inr p"
  by (cases v) (auto simp: typed_text_def test_punct_def bindE_def)

lemma is_end_typed:
  assumes "typed_word L w"
  shows "\<exists>b. is_end E (Fin t) w = Inr b"
proof -
  from assms obtain kvs where w: "w = JObj kvs" and tx: "typed_text (own kvs ''text'')"
    and st: "num_or_absent (own kvs ''startMs'')"
    by (cases w) (simp_all add: typed_word_def del: own.simps)
  from tx have "\<exists>p. test_punct E (own kvs ''text'') = Inr p"
    by (rule test_punct_typed)
  then obtain p where p: "test_punct E (own kvs ''text'') = Inr p" by blast
  from num_or_absent_ToNumber[OF st] obtain n where
    n: "ToNumber E (js_or (own kvs ''startMs'') (JNum (Fin 0))) = Inr n" by blast
  show ?thesis
    using w p n by (cases p) (auto simp add: is_end_def bindE_def simp del: own.simps)
qed

lemma find_end_typed:
  assumes "list_all (typed_word L) ws"
  shows "\<exists>e. find_end E (Fin t) ws = Inr e"
  using assms
proof (induction ws)
  case Nil
  then show ?case by simp
next
  case (Cons w ws)
  then obtain b where "is_end E (Fin t) w = Inr b" using is_end_typed[of L w E t] by auto
  then show ?case using Cons by (cases b) (auto simp: bindE_def)
qed

lemma frame_typed:
  assumes "list_all (typed_word L) ws"
  shows "\<exists>f. frame E ws ds (Fin t) = Inr (JObj f)"
proof -
  from find_end_typed[OF assms] obtain e where "find_end E (Fin t) ws = Inr e" by blast
  then show ?thesis by (simp add: frame_def Let_def bindE_def)
qed

text \<open>
  The loop returns once the counter has passed the duration, if the frames it adds on the
  way fit the heap and the array.
\<close>

lemma frames_loop_typed:
  assumes ws: "list_all (typed_word L) ws" and d: "0 < d"
  shows "D - t < real n * d \<Longrightarrow> length acc + n \<le> heap_room E + 1
     \<Longrightarrow> length acc + n \<le> max_array_length \<Longrightarrow>
     \<exists>fs. frames_loop E ws ds (Fin D) (Fin d) (Fin t) acc = Some (Inr (acc @ fs))
          \<and> (t \<le> D \<longrightarrow> fs \<noteq> [])"
proof (induction n arbitrary: t acc)
  case 0
  then have "\<not> t \<le> D" by simp
  then have "frames_loop E ws ds (Fin D) (Fin d) (Fin t) acc = Some (Inr (acc @ []))"
    by (subst frames_loop.simps) simp
  then show ?case using \<open>\<not> t \<le> D\<close> by blast
next
  case (Suc n)
  show ?case
  proof (cases "t \<le> D")
    case False
    then have "frames_loop E ws ds (Fin D) (Fin d) (Fin t) acc = Some (Inr (acc @ []))"
      by (subst frames_loop.simps) simp
    then show ?thesis using False by blast
  next
    case True
    from frame_typed[OF ws] obtain f where f: "frame E ws ds (Fin t) = Inr (JObj f)" by blast
    have room: "\<not> heap_room E < length acc" "\<not> max_array_length \<le> length acc"
      using Suc.prems(2,3) by simp_all
    have "D - (t + d) < real n * d" using Suc.prems(1) by (simp add: algebra_simps)
    moreover have "length (acc @ [JObj f]) + n \<le> heap_room E + 1"
      using Suc.prems(2) by simp
    moreover have "length (acc @ [JObj f]) + n \<le> max_array_length"
      using Suc.prems(3) by simp
    ultimately obtain fs where
      fs: "frames_loop E ws ds (Fin D) (Fin d) (Fin (t + d)) (acc @ [JObj f])
            = Some (Inr ((acc @ [JObj f]) @ fs))"
      using Suc.IH[of "t + d" "acc @ [JObj f]"] by blast
    have "frames_loop E ws ds (Fin D) (Fin d) (Fin t) acc
        = frames_loop E ws ds (Fin D) (Fin d) (Fin (t + d)) (acc @ [JObj f])"
      using True f room by (subst frames_loop.simps) simp
    with fs have "frames_loop E ws ds (Fin D) (Fin d) (Fin t) acc = Some (Inr (acc @ (JObj f # fs)))"
      by simp
    then show ?thesis by blast
  qed
qed

lemma frames_loop_total:
  assumes ws: "list_all (typed_word L) ws" and d: "1 \<le> d" and D: "0 \<le> D"
    and lim: "D \<le> real (time_limit E)"
  shows "\<exists>fs. frames_loop E ws ds (Fin D) (Fin d) (Fin 0) [] = Some (Inr fs) \<and> fs \<noteq> []"
proof -
  define n where "n = nat \<lfloor>D / d\<rfloor> + 1"
  have "D * 1 \<le> D * d" using d D by (intro mult_left_mono) simp_all
  then have q: "0 \<le> D / d" "D / d \<le> D" using d D by (simp_all add: field_simps)
  have "D / d < real_of_int \<lfloor>D / d\<rfloor> + 1" by linarith
  moreover have "real n = real_of_int \<lfloor>D / d\<rfloor> + 1" using q(1) by (simp add: n_def)
  ultimately have "D / d < real n" by simp
  then have 1: "D - 0 < real n * d" using d by (simp add: field_simps)
  have "\<lfloor>D / d\<rfloor> \<le> int (time_limit E)"
    using q(2) lim by (simp add: floor_le_iff)
  then have n: "n \<le> time_limit E + 1" by (simp add: n_def)
  have 2: "length ([] :: jsval list) + n \<le> heap_room E + 1"
    using n by (simp add: time_limit_def)
  have 3: "length ([] :: jsval list) + n \<le> max_array_length"
    using n by (simp add: time_limit_def max_array_length_def)
  have d0: "0 < d" using d by simp
  from frames_loop_typed[OF ws d0 1 2 3, of ds] D show ?thesis by auto
qed

lemma typed_word_endMs: "typed_word L w \<Longrightarrow> \<exists>kvs. w = JObj kvs \<and> time_within L (own kvs ''endMs'')"
  by (cases w) (simp_all add: typed_word_def del: own.simps)

lemma typed_viseme_startMs: "typed_viseme L w \<Longrightarrow> \<exists>kvs. w = JObj kvs \<and> time_within L (own kvs ''startMs'')"
  by (cases w) (simp_all add: typed_viseme_def del: own.simps)

lemma typed_fps_cases:
  assumes "typed_fps fps"
  obtains r where "fps = JNum (Fin r)" and "r \<le> 2000"
proof (cases fps)
  case (JNum n)
  then show ?thesis using assms that by (cases n) (simp_all add: typed_fps_def)
qed (use assms in \<open>simp_all add: typed_fps_def\<close>)

lemma fallback_typed:
  assumes ws: "list_all (typed_word (time_limit E)) ws"
    and vs: "list_all (typed_viseme (time_limit E)) vs" and f: "typed_fps fps"
  shows "\<exists>d fs. simpleFallbackTimeline E ws vs ds fps = Some (Inr (fixed_timeline d fs)) \<and> fs \<noteq> []"
proof -
  from f obtain r where fps: "fps = JNum (Fin r)" and r: "r \<le> 2000"
    by (rule typed_fps_cases)
  have m: "Math_max (Fin 1) (Fin r) = Fin (max 1 r)" by (simp add: Math_max_def max_def)
  have "1 / 2 \<le> 1000 / max 1 r" using r by (simp add: field_simps max_def)
  then have "1 \<le> \<lfloor>1000 / max 1 r + 1 / 2\<rfloor>" by linarith
  then have pos: "1 \<le> real_of_int \<lfloor>1000 / max 1 r + 1 / 2\<rfloor>" by linarith
  have dt: "Math_round (js_div (Fin 1000) (Math_max (Fin 1) (Fin r)))
      = Fin (of_int \<lfloor>1000 / max 1 r + 1 / 2\<rfloor>)"
  proof -
    have "max 1 r \<noteq> 0" by (simp add: max_def)
    then show ?thesis by (simp add: m)
  qed
  have "list_all (\<lambda>w. \<exists>kvs. w = JObj kvs \<and> time_within (time_limit E) (own kvs ''endMs'')) ws"
    using ws typed_word_endMs unfolding list_all_iff by blast
  from max_over_typed[OF this, of 0 E] obtain a where
    a: "max_over E ''endMs'' ws (Fin 0) = Inr (Fin a)" "0 \<le> a" "a \<le> real (time_limit E)" by auto
  have "list_all (\<lambda>w. \<exists>kvs. w = JObj kvs \<and> time_within (time_limit E) (own kvs ''startMs'')) vs"
    using vs typed_viseme_startMs unfolding list_all_iff by blast
  from max_over_typed[OF this, of 0 E] obtain b where
    b: "max_over E ''startMs'' vs (Fin 0) = Inr (Fin b)" "0 \<le> b" "b \<le> real (time_limit E)" by auto
  have mx: "Math_max (Fin a) (Fin b) = Fin (max a b)" by (rule Math_max_Fin)
  have "0 \<le> max a b" using a(2) by simp
  moreover have "max a b \<le> real (time_limit E)" using a(3) b(3) by simp
  ultimately obtain fs where
    fs: "frames_loop E ws ds (Fin (max a b)) (Fin (of_int \<lfloor>1000 / max 1 r + 1 / 2\<rfloor>)) (Fin 0) []
          = Some (Inr fs)" "fs \<noteq> []"
    using frames_loop_total[OF ws pos, of "max a b" E ds] by blast
  have "simpleFallbackTimeline E ws vs ds fps
      = Some (Inr (fixed_timeline (of_int \<lfloor>1000 / max 1 r + 1 / 2\<rfloor>) fs))"
    by (simp add: simpleFallbackTimeline_def fps dt a(1) b(1) mx fs(1) fixed_timeline_def Let_def)
  with fs(2) show ?thesis by blast
qed

lemma typed_fixed_timeline: "typed_timeline (fixed_timeline d fs)"
  by (simp add: typed_timeline_def fixed_timeline_def num_or_absent_def)

lemma clamped_fixed_timeline:
  "\<exists>d'. clamped ds (fixed_timeline d fs) = fixed_timeline d' (map (clampMap ds) fs)"
  by (cases "d = 0") (simp_all add: clamped_def fixed_timeline_def dt_num_def Math_max_Fin)

lemma nonempty_fixed_timeline: "nonempty (fixed_timeline d fs) = (fs \<noteq> [])"
  by (simp add: nonempty_def fixed_timeline_def)

lemma fallback_clamped_typed:
  assumes ws: "list_all (typed_word (time_limit E)) ws"
    and vs: "list_all (typed_viseme (time_limit E)) vs" and f: "typed_fps fps"
  shows "\<exists>T. fallback_clamped E ws vs fps ds = Some (Inr (Sent T)) \<and> nonempty T"
proof -
  from fallback_typed[OF assms, of ds] obtain d fs where
    fb: "simpleFallbackTimeline E ws vs ds fps = Some (Inr (fixed_timeline d fs))" and ne: "fs \<noteq> []"
    by blast
  have c: "clampTimeline E (fixed_timeline d fs) ds = Inr (clamped ds (fixed_timeline d fs))"
    by (simp add: clampTimeline_def clampTimeline_run_typed typed_fixed_timeline)
  from clamped_fixed_timeline[of ds d fs] obtain d' where
    d': "clamped ds (fixed_timeline d fs) = fixed_timeline d' (map (clampMap ds) fs)" by blast
  have "fallback_clamped E ws vs fps ds = Some (Inr (Sent (fixed_timeline d' (map (clampMap ds) fs))))"
    by (simp add: fallback_clamped_def fb c d')
  moreover have "nonempty (fixed_timeline d' (map (clampMap ds) fs))"
    using ne by (simp add: nonempty_fixed_timeline)
  ultimately show ?thesis by blast
qed

lemma own_put: "getp_opt (put (JObj kvs) k v) k' = (if k' = k then v else own kvs k')"
  by (simp add: own_setp del: own.simps)

lemma clampTimeline_mode:
  assumes "clampTimeline E T ds = Inr safe"
  shows "getp_opt safe ''mode'' = getp_opt T ''mode''"
proof (cases T)
  case (JObj kvs)
  show ?thesis
    using assms unfolding JObj clampTimeline_def clampTimeline_run_def
    by (auto simp: own_setp Let_def simp del: own.simps split: if_splits jsval.splits sum.splits)
next
qed (use assms in \<open>auto simp: clampTimeline_def clampTimeline_run_def split: if_splits\<close>)

lemma is_array_iff: "is_array v = (\<exists>xs. v = JArr xs)"
  by (cases v) simp_all

lemma clampTimeline_fixed_frames:
  assumes "clampTimeline E T ds = Inr safe"
    and "getp_opt T ''mode'' = JStr ''fixed_fps''"
    and "getp_opt (getp_opt T ''fixedFps'') ''frames'' = JArr fs"
  shows "getp_opt (getp_opt safe ''fixedFps'') ''frames'' = JArr (map (clampMap ds) fs)"
proof -
  from assms(2) obtain kvs where T: "T = JObj kvs" by (cases T) simp_all
  from assms(3) T obtain fk where fk: "own kvs ''fixedFps'' = JObj fk"
    by (cases "own kvs ''fixedFps''") (simp_all del: own.simps)
  show ?thesis
    using assms fk unfolding T clampTimeline_def clampTimeline_run_def
    by (auto simp: own_setp Let_def simp del: own.simps split: sum.splits)
qed

lemma clampTimeline_keyframes_array:
  assumes "clampTimeline E T ds = Inr safe"
    and "getp_opt T ''mode'' = JStr ''keyframes''"
  shows "\<exists>kfs. getp_opt safe ''keyframes'' = JArr kfs"
proof -
  from assms(2) obtain kvs where T: "T = JObj kvs" by (cases T) simp_all
  show ?thesis
    using assms unfolding T clampTimeline_def clampTimeline_run_def
    by (auto simp: own_setp Let_def simp del: own.simps split: sum.splits jsval.splits)
qed

text \<open>
  The two tests of the handler on a clamped answer of a recognized shape come to this: the
  answer has no keyframe, or no frame.
\<close>

lemma empty_tests:
  assumes r: "recognized v" and c: "clampTimeline E v tr = Inr safe"
  shows "((getp_opt safe ''mode'' = JStr ''keyframes''
            \<and> (\<not> is_array (getp_opt safe ''keyframes'')
                 \<or> \<not> truthy (length_prop (getp_opt safe ''keyframes''))))
          \<or> (getp_opt safe ''mode'' = JStr ''fixed_fps''
              \<and> \<not> truthy (length_prop (getp_opt (getp_opt safe ''fixedFps'') ''frames''))))
         = (\<not> nonempty safe)"
proof -
  have mode: "getp_opt safe ''mode'' = getp_opt v ''mode''"
    using clampTimeline_mode[OF c] .
  show ?thesis
  proof (cases "getp_opt v ''mode'' = JStr ''keyframes''")
    case True
    from clampTimeline_keyframes_array[OF c True] obtain kfs where
      k: "getp_opt safe ''keyframes'' = JArr kfs" by blast
    show ?thesis using True mode k by (simp add: nonempty_def)
  next
    case False
    with r have m: "getp_opt v ''mode'' = JStr ''fixed_fps''"
      and a: "is_array (getp_opt (getp_opt v ''fixedFps'') ''frames'')"
      by (simp_all add: recognized_def)
    from a obtain fs where fs: "getp_opt (getp_opt v ''fixedFps'') ''frames'' = JArr fs"
      by (auto simp: is_array_iff)
    have fr: "getp_opt (getp_opt safe ''fixedFps'') ''frames'' = JArr (map (clampMap tr) fs)"
      using clampTimeline_fixed_frames[OF c m fs] .
    show ?thesis using m mode fr by (simp add: nonempty_def)
  qed
qed

lemma attempt_Replies:
  "attempt E (Replies (Some v)) ws vs fps tr =
     (if \<not> recognized v then fallback_clamped E ws vs fps tr
      else (case clampTimeline E v tr of
              Inl e \<Rightarrow> Some (Inl e)
            | Inr safe \<Rightarrow>
                if nonempty safe then Some (Inr (Sent safe))
                else fallback_clamped E ws vs fps tr))"
proof -
  define isFixed where "isFixed = (truthy v \<and> getp_opt v ''mode'' = JStr ''fixed_fps''
                          \<and> truthy (getp_opt v ''fixedFps'')
                          \<and> is_array (getp_opt (getp_opt v ''fixedFps'') ''frames''))"
  define isKeyed where "isKeyed = (truthy v \<and> getp_opt v ''mode'' = JStr ''keyframes''
                          \<and> is_array (getp_opt v ''keyframes''))"
  have unfold: "attempt E (Replies (Some v)) ws vs fps tr =
      (if \<not> isFixed \<and> \<not> isKeyed then fallback_clamped E ws vs fps tr
       else (case clampTimeline E v tr of
               Inl e \<Rightarrow> Some (Inl e)
             | Inr safe \<Rightarrow>
                 if getp_opt safe ''mode'' = JStr ''keyframes''
                    \<and> (\<not> is_array (getp_opt safe ''keyframes'')
                         \<or> \<not> truthy (length_prop (getp_opt safe ''keyframes'')))
                 then fallback_clamped E ws vs fps tr
                 else if getp_opt safe ''mode'' = JStr ''fixed_fps''
                    \<and> \<not> truthy (length_prop (getp_opt (getp_opt safe ''fixedFps'') ''frames''))
                 then fallback_clamped E ws vs fps tr
                 else Some (Inr (Sent safe))))"
    unfolding attempt_def isFixed_def isKeyed_def by (simp add: Let_def)
  have g: "(\<not> isFixed \<and> \<not> isKeyed) = (\<not> recognized v)"
    by (auto simp: isFixed_def isKeyed_def recognized_def)
  show ?thesis
  proof (cases "recognized v")
    case False
    then show ?thesis unfolding unfold g by simp
  next
    case True
    show ?thesis
    proof (cases "clampTimeline E v tr")
      case (Inl e)
      then show ?thesis unfolding unfold g using True by simp
    next
      case (Inr safe)
      let ?g1 = "getp_opt safe ''mode'' = JStr ''keyframes''
                    \<and> (\<not> is_array (getp_opt safe ''keyframes'')
                         \<or> \<not> truthy (length_prop (getp_opt safe ''keyframes'')))"
      let ?g2 = "getp_opt safe ''mode'' = JStr ''fixed_fps''
                    \<and> \<not> truthy (length_prop (getp_opt (getp_opt safe ''fixedFps'') ''frames''))"
      have e: "(?g1 \<or> ?g2) = (\<not> nonempty safe)" using empty_tests[OF True Inr] .
      show ?thesis
      proof (cases "nonempty safe")
        case ne: True
        with e have "\<not> ?g1" "\<not> ?g2" by blast+
        then show ?thesis unfolding unfold g using True Inr ne by auto
      next
        case ne: False
        with e have "?g1 \<or> ?g2" by blast
        then show ?thesis unfolding unfold g using True Inr ne by auto
      qed
    qed
  qed
qed

lemma lineText_typed:
  assumes "list_all (typed_word L) ws"
  shows "\<exists>s. lineText E ws = Inr s"
proof -
  have "\<And>w. w \<in> set ws \<Longrightarrow> \<exists>s. ToString E (js_or (getp_opt w ''text'') (JStr [])) = Inr s"
  proof -
    fix w assume "w \<in> set ws"
    with assms have "typed_word L w" by (simp add: list_all_iff)
    then obtain kvs where w: "w = JObj kvs" and t: "typed_text (own kvs ''text'')"
      by (cases w) (simp_all add: typed_word_def del: own.simps)
    show "\<exists>s. ToString E (js_or (getp_opt w ''text'') (JStr [])) = Inr s"
      using t unfolding w by (cases "own kvs ''text''") (simp_all add: typed_text_def js_or_def del: own.simps)
  qed
  then have "\<exists>ss. mapE (\<lambda>w. ToString E (js_or (getp_opt w ''text'') (JStr []))) ws = Inr ss"
  proof (induction ws)
    case Nil
    then show ?case by simp
  next
    case (Cons a ws)
    then obtain s ss where "ToString E (js_or (getp_opt a ''text'') (JStr [])) = Inr s"
      "mapE (\<lambda>w. ToString E (js_or (getp_opt w ''text'') (JStr []))) ws = Inr ss"
      by (metis list.set_intros(1) list.set_intros(2))
    then show ?case by (simp add: bindE_def)
  qed
  then show ?thesis by (auto simp: lineText_def bindE_def)
qed

text \<open>
  What the handler comes to on a typed request with a definition: each way for the model's
  answer to be unusable ends in the clamped output of the synthesizer.
\<close>

lemma plan_resolved:
  assumes ws: "list_all (typed_word (time_limit E)) ws"
    and vs: "list_all (typed_viseme (time_limit E)) vs" and f: "typed_fps fps"
    and ne: "defs \<noteq> []"
  shows "plan E Fails ws vs fps defs = fallback_clamped E ws vs fps defs"
    and "plan E (Replies None) ws vs fps defs = fallback_clamped E ws vs fps (take 280 defs)"
    and "plan E (Replies (Some v)) ws vs fps defs =
       (if \<not> recognized v then fallback_clamped E ws vs fps (take 280 defs)
        else (case clampTimeline E v (take 280 defs) of
                Inl e \<Rightarrow> fallback_clamped E ws vs fps defs
              | Inr safe \<Rightarrow>
                  if nonempty safe then Some (Inr (Sent safe))
                  else fallback_clamped E ws vs fps (take 280 defs)))"
proof -
  from lineText_typed[OF ws] obtain s where s: "lineText E ws = Inr s" by blast
  from fallback_clamped_typed[OF ws vs f, of "take 280 defs"] obtain F where
    F: "fallback_clamped E ws vs fps (take 280 defs) = Some (Inr (Sent F))" by blast
  show "plan E Fails ws vs fps defs = fallback_clamped E ws vs fps defs"
    using ne s by (simp add: plan_def attempt_def)
  have "attempt E (Replies None) ws vs fps (take 280 defs) = Some (Inr (Sent F))"
    using F by (simp add: attempt_def)
  then show "plan E (Replies None) ws vs fps defs = fallback_clamped E ws vs fps (take 280 defs)"
    using ne s F by (simp add: plan_def)
  show "plan E (Replies (Some v)) ws vs fps defs =
       (if \<not> recognized v then fallback_clamped E ws vs fps (take 280 defs)
        else (case clampTimeline E v (take 280 defs) of
                Inl e \<Rightarrow> fallback_clamped E ws vs fps defs
              | Inr safe \<Rightarrow>
                  if nonempty safe then Some (Inr (Sent safe))
                  else fallback_clamped E ws vs fps (take 280 defs)))"
    using ne s F
    by (simp add: plan_def attempt_Replies split: sum.splits)
qed

lemma plan_no_definitions:
  assumes ws: "list_all (typed_word (time_limit E)) ws"
    and vs: "list_all (typed_viseme (time_limit E)) vs" and f: "typed_fps fps"
  shows "\<exists>d fs. simpleFallbackTimeline E ws vs [] fps = Some (Inr (fixed_timeline d fs)) \<and> fs \<noteq> []
      \<and> plan E collab ws vs fps [] = Some (Inr (Sent (fixed_timeline d fs)))"
proof -
  from fallback_typed[OF assms, of "[]"] obtain d fs where
    fb: "simpleFallbackTimeline E ws vs [] fps = Some (Inr (fixed_timeline d fs))" "fs \<noteq> []" by blast
  then have "plan E collab ws vs fps [] = Some (Inr (Sent (fixed_timeline d fs)))"
    by (simp add: plan_def)
  with fb show ?thesis by blast
qed

lemma plan_typed:
  assumes ws: "list_all (typed_word (time_limit E)) ws"
    and vs: "list_all (typed_viseme (time_limit E)) vs" and f: "typed_fps fps"
  shows "\<exists>T. plan E collab ws vs fps defs = Some (Inr (Sent T)) \<and> nonempty T"
proof (cases "defs = []")
  case True
  from plan_no_definitions[OF assms, of collab] show ?thesis
    using True by (auto simp: nonempty_fixed_timeline)
next
  case False
  note r = plan_resolved[OF assms False]
  from fallback_clamped_typed[OF assms, of defs] obtain F where
    F: "fallback_clamped E ws vs fps defs = Some (Inr (Sent F))" "nonempty F" by blast
  from fallback_clamped_typed[OF assms, of "take 280 defs"] obtain F' where
    F': "fallback_clamped E ws vs fps (take 280 defs) = Some (Inr (Sent F'))" "nonempty F'" by blast
  show ?thesis
  proof (cases collab)
    case Fails
    then show ?thesis using r(1) F by simp
  next
    case (Replies out)
    show ?thesis
    proof (cases out)
      case None
      then show ?thesis using Replies r(2) F' by simp
    next
      case (Some v)
      show ?thesis
        unfolding Replies Some r(3) using F F'
        by (auto split: sum.splits)
    qed
  qed
qed

text \<open>A typed request reaches \<open>plan\<close> with typed fields and the definitions parsed from its catalog.\<close>

lemma handler_plan:
  assumes "typed_request E body"
  shows "\<exists>ws vs defs.
      field (js_or body (JObj [])) ''words'' (JArr []) = JArr ws
    \<and> field (js_or body (JObj [])) ''visemes'' (JArr []) = JArr vs
    \<and> parseCatalog (field (js_or body (JObj [])) ''parameterCatalog'' (JStr [])) = Inr defs
    \<and> list_all (typed_word (time_limit E)) ws \<and> list_all (typed_viseme (time_limit E)) vs
    \<and> typed_fps (field (js_or body (JObj [])) ''fps'' (JNum (Fin 60)))
    \<and> (\<forall>collab. live2d_timeline E collab body
          = plan E collab ws vs (field (js_or body (JObj [])) ''fps'' (JNum (Fin 60))) defs)"
proof -
  let ?b = "js_or body (JObj [])"
  from assms obtain ws where w: "field ?b ''words'' (JArr []) = JArr ws"
      "list_all (typed_word (time_limit E)) ws"
    by (cases "field ?b ''words'' (JArr [])") (simp_all add: typed_request_def Let_def)
  from assms obtain vs where v: "field ?b ''visemes'' (JArr []) = JArr vs"
      "list_all (typed_viseme (time_limit E)) vs"
    by (cases "field ?b ''visemes'' (JArr [])") (simp_all add: typed_request_def Let_def)
  from assms obtain s where c: "field ?b ''parameterCatalog'' (JStr []) = JStr s"
    by (cases "field ?b ''parameterCatalog'' (JStr [])") (simp_all add: typed_request_def Let_def)
  from assms have f: "typed_fps (field ?b ''fps'' (JNum (Fin 60)))"
    by (simp add: typed_request_def Let_def)
  have "\<exists>defs. parseCatalog (JStr s) = Inr defs"
    by (cases "s = []") (simp_all add: parseCatalog_def js_or_def)
  then obtain defs where p: "parseCatalog (JStr s) = Inr defs" by blast
  have "\<forall>collab. live2d_timeline E collab body
      = plan E collab ws vs (field ?b ''fps'' (JNum (Fin 60))) defs"
    by (simp add: live2d_timeline_def Let_def w(1) v(1) c p)
  then show ?thesis using w v c p f by auto
qed

lemma handler_typed:
  assumes "typed_request E body"
  shows "\<exists>T. live2d_timeline E collab body = Some (Inr (Sent T)) \<and> nonempty T"
proof -
  from handler_plan[OF assms] obtain ws vs defs where
    "list_all (typed_word (time_limit E)) ws" "list_all (typed_viseme (time_limit E)) vs"
    "typed_fps (field (js_or body (JObj [])) ''fps'' (JNum (Fin 60)))"
    "live2d_timeline E collab body
        = plan E collab ws vs (field (js_or body (JObj [])) ''fps'' (JNum (Fin 60))) defs"
    by blast
  then show ?thesis using plan_typed[of E ws vs _ collab defs] by simp
qed



section \<open>The catalog of the examples\<close>

lemma parse_empty: "parseCatalog (JStr []) = Inr []"
  by (simp add: parseCatalog_def js_or_def split_lines_def List.map_filter_simps match_at_def lit_def)

text \<open>The parser builds no bound that is NaN.\<close>

lemma double_of_not_NaN: "double_of x \<noteq> NaN"
  by (simp add: double_of_def)

lemma item_def_ok: "def_ok (item m)"
  by (cases m) (simp add: item_def def_ok_def double_of_not_NaN)

lemma parseCatalog_def_ok: "parseCatalog c = Inr defs \<Longrightarrow> list_all def_ok defs"
  by (cases "js_or c (JStr [])") (auto simp: parseCatalog_def list_all_iff item_def_ok)

lemma has_replicate: "has (replicate n d @ ds) i = ((0 < n \<and> def_id d = i) \<or> has ds i)"
  by (auto simp: has_def list_ex_iff)

lemma byId_snoc: "byId (ds @ [d]) k = (if def_id d = k then Some d else byId ds k)"
  by (simp add: byId_def)

lemma has_replicate0: "has (replicate n d) i = (0 < n \<and> def_id d = i)"
  by (auto simp: has_def list_ex_iff)

lemma has_single: "has [d] i = (def_id d = i)"
  by (simp add: has_def)

lemma split_nl_line: "CHR 0x0A \<notin> set l \<Longrightarrow> split_nl (l @ CHR 0x0A # rest) = l # split_nl rest"
  by (induction l) auto

lemma split_nl_last: "CHR 0x0A \<notin> set l \<Longrightarrow> split_nl l = [l]"
  by (induction l) auto

lemma split_nl_replicate:
  assumes "CHR 0x0A \<notin> set l" and "CHR 0x0A \<notin> set l'"
  shows "split_nl (concat (replicate n (l @ [CHR 0x0A])) @ l') = replicate n l @ [l']"
  using assms by (induction n) (simp_all add: split_nl_last split_nl_line)

lemma match_ParamX: "map item (List.map_filter match_line [line_ParamX]) = [ParamX]"
  unfolding line_ParamX_def ParamX_def by code_simp

lemma match_ParamAngleY: "map item (List.map_filter match_line [line_ParamAngleY]) = [ParamAngleY]"
  unfolding line_ParamAngleY_def ParamAngleY_def by code_simp

lemma map_filter_append: "List.map_filter f (xs @ ys) = List.map_filter f xs @ List.map_filter f ys"
  by (simp add: List.map_filter_def)

lemma map_filter_replicate:
  "map g (List.map_filter f [x]) = [y] \<Longrightarrow> map g (List.map_filter f (replicate n x)) = replicate n y"
  by (induction n) (auto simp: List.map_filter_simps split: option.splits)

lemma parse_long_catalog: "parseCatalog (JStr long_catalog) = Inr (replicate 280 ParamX @ [ParamAngleY])"
proof -
  have nl: "CHR 0x0A \<notin> set line_ParamX" "CHR 0x0A \<notin> set line_ParamAngleY"
    by (simp_all add: line_ParamX_def line_ParamAngleY_def emdash_def)
  have cr: "strip_cr line_ParamX = line_ParamX"
    by (simp add: strip_cr_def line_ParamX_def)
  have "split_lines long_catalog = replicate 280 line_ParamX @ [line_ParamAngleY]"
    by (simp add: split_lines_def long_catalog_def split_nl_replicate[OF nl] Let_def cr)
  moreover have "long_catalog \<noteq> []" by (simp add: long_catalog_def line_ParamAngleY_def)
  ultimately show ?thesis
    using match_ParamAngleY map_filter_replicate[OF match_ParamX, of 280]
    by (simp add: parseCatalog_def js_or_def map_filter_append)
qed


lemma time_limit_plain: "time_limit plain_engine = 1000000"
  by (simp add: time_limit_def plain_engine_def max_array_length_def)

lemma typed_plain_request: "typed_request plain_engine plain_request"
  by (simp add: typed_request_def plain_request_def js_or_def field_def typed_word_def
      typed_viseme_def typed_text_def num_or_absent_def time_within_def typed_fps_def stop_word_def
      time_limit_plain)


section \<open>The handler never raises on typed requests\<close>




section \<open>The answer is never empty on typed requests\<close>

text \<open>
  C2, as stated, on a request with no catalog and one word whose \<open>endMs\<close> is an object: the
  duration is NaN, the loop of the synthesizer does not run, and the timeline sent has no
  frame.
\<close>

theorem untimed_word_gives_no_frame:
  "live2d_timeline plain_engine Fails untimed_word_request
   = Some (Inr (Sent (JObj [(''mode'', JStr ''fixed_fps''),
                            (''fixedFps'', JObj [(''dtMs'', JNum (Fin 17)), (''frames'', JArr [])])])))"
  by (simp add: live2d_timeline_def untimed_word_request_def js_or_def field_def parse_empty plan_def
      simpleFallbackTimeline_def bindE_def Math_max_def frames_loop.simps)

text \<open>
  C2, amended: for every request whose \<open>words\<close> and \<open>visemes\<close> are arrays of word and viseme
  objects with string (or absent) text and numeric (or absent) times, the \<open>endMs\<close> of the
  words and the \<open>startMs\<close> of the visemes finite and within the time for which the frames of
  the synthesizer fit the memory and an array, whose catalog is a string and whose \<open>fps\<close> is
  a number not above 2000, and for every behaviour of the generative collaborator (failure,
  text that is not JSON, JSON of another shape, a timeline of the right shape with no
  keyframe or frame), the handler answers with a timeline that has at least one keyframe or
  frame.
\<close>

theorem handler_never_empty:
  assumes "typed_request E body"
  shows "\<exists>T. live2d_timeline E collab body = Some (Inr (Sent T)) \<and> nonempty T"
  using assms by (rule handler_typed)

theorem handler_never_empty_witness:
  "typed_request plain_engine plain_request
   \<and> (\<exists>T. live2d_timeline plain_engine (Replies (Some empty_keyframes)) plain_request
            = Some (Inr (Sent T)) \<and> nonempty T)"
  using handler_never_empty [of plain_engine plain_request "Replies (Some empty_keyframes)"]
    typed_plain_request
  by blast

section \<open>The truncation of the definitions\<close>

lemma plan_long_catalog:
  "plan plain_engine Fails [stop_word] [] (JNum (Fin 60)) (replicate 280 ParamX @ [ParamAngleY])
   = Some (Inr (Sent (JObj [(''mode'', JStr ''fixed_fps''),
        (''fixedFps'', JObj [(''dtMs'', JNum (Fin 17)),
                             (''frames'', JArr [JObj [(''ParamAngleY'', JNum (Fin 3))]])])])))
   \<and> plan plain_engine (Replies None) [stop_word] [] (JNum (Fin 60)) (replicate 280 ParamX @ [ParamAngleY])
   = Some (Inr (Sent (JObj [(''mode'', JStr ''fixed_fps''),
        (''fixedFps'', JObj [(''dtMs'', JNum (Fin 17)), (''frames'', JArr [JObj []])])])))"
proof -
  have h: "has (replicate 280 ParamX @ [ParamAngleY]) i = (i = ''ParamX'' \<or> i = ''ParamAngleY'')" for i
    by (auto simp: has_replicate has_single ParamX_def ParamAngleY_def)
  have h': "has (replicate 280 ParamX) i = (i = ''ParamX'')" for i
    by (auto simp: has_replicate0 ParamX_def)
  have b: "byId (replicate 280 ParamX @ [ParamAngleY]) ''ParamAngleY'' = Some ParamAngleY"
    by (simp add: byId_snoc ParamAngleY_def)
  have t: "take 280 (replicate 280 ParamX @ [ParamAngleY]) = replicate 280 ParamX" by simp
  have ne: "replicate 280 ParamX @ [ParamAngleY] \<noteq> []" by simp
  have l: "lineText plain_engine [stop_word] = Inr ''Stop.''"
    by (simp add: lineText_def stop_word_def js_or_def bindE_def)
  have e: "is_end plain_engine (Fin 0) stop_word = Inr True"
    by (simp add: is_end_def stop_word_def test_punct_def bindE_def js_or_def js_sub_def)
  have f1: "frame plain_engine [stop_word] (replicate 280 ParamX @ [ParamAngleY]) (Fin 0)
      = Inr (JObj [(''ParamAngleY'', JNum (Fin 3))])"
    by (simp add: frame_def h e bindE_def) (simp add: stop_word_def)
  have f2: "frame plain_engine [stop_word] (replicate 280 ParamX) (Fin 0) = Inr (JObj [])"
    by (simp add: frame_def h')
  have m: "max_over plain_engine ''endMs'' [stop_word] (Fin 0) = Inr (Fin 0)"
    by (simp add: stop_word_def bindE_def js_or_def Math_max_def)
  have m0: "max_over plain_engine ''startMs'' [] (Fin 0) = Inr (Fin 0)" by simp
  have s1: "simpleFallbackTimeline plain_engine [stop_word] [] (replicate 280 ParamX @ [ParamAngleY]) (JNum (Fin 60))
      = Some (Inr (JObj [(''mode'', JStr ''fixed_fps''),
        (''fixedFps'', JObj [(''dtMs'', JNum (Fin 17)),
                             (''frames'', JArr [JObj [(''ParamAngleY'', JNum (Fin 3))]])])]))"
    by (simp add: simpleFallbackTimeline_def m m0 Math_max_def frames_loop.simps f1
        max_array_length_def del: max_over.simps)
  have s2: "simpleFallbackTimeline plain_engine [stop_word] [] (replicate 280 ParamX) (JNum (Fin 60))
      = Some (Inr (JObj [(''mode'', JStr ''fixed_fps''),
        (''fixedFps'', JObj [(''dtMs'', JNum (Fin 17)), (''frames'', JArr [JObj []])])]))"
    by (simp add: simpleFallbackTimeline_def m m0 Math_max_def frames_loop.simps f2
        max_array_length_def del: max_over.simps)
  have c1: "clampMap (replicate 280 ParamX @ [ParamAngleY]) (JObj [(''ParamAngleY'', JNum (Fin 3))])
      = JObj [(''ParamAngleY'', JNum (Fin 3))]"
    by (simp add: clampMap_def js_or_def b assign_def clamp_def Math_max_def Math_min_def)
       (simp add: ParamAngleY_def)
  have c2: "clampMap ds (JObj []) = JObj []" for ds
    by (simp add: clampMap_def js_or_def)
  show ?thesis
    by (simp add: plan_def ne t l attempt_def fallback_clamped_def s1 s2 clampTimeline_def
        clampTimeline_run_def js_or_def Math_max_def c1 c2)
qed

text \<open>
  C7 on the request with the catalog of 281 lines.  When the collaborator fails, the \<open>catch\<close>
  block synthesizes and clamps with all 281 definitions, and the frame sent carries
  \<open>ParamAngleY\<close>, the parameter of line 281.  When the collaborator answers with text that is
  not JSON, the fallback inside the \<open>try\<close> block uses the first 280 definitions, and the
  frame is empty.
\<close>

theorem catch_uses_untrimmed_definitions:
  "parseCatalog (JStr long_catalog) = Inr (replicate 280 ParamX @ [ParamAngleY])
   \<and> take 280 (replicate 280 ParamX @ [ParamAngleY]) = replicate 280 ParamX
   \<and> live2d_timeline plain_engine Fails long_catalog_request
     = Some (Inr (Sent (JObj [(''mode'', JStr ''fixed_fps''),
          (''fixedFps'', JObj [(''dtMs'', JNum (Fin 17)),
                               (''frames'', JArr [JObj [(''ParamAngleY'', JNum (Fin 3))]])])])))
   \<and> live2d_timeline plain_engine (Replies None) long_catalog_request
     = Some (Inr (Sent (JObj [(''mode'', JStr ''fixed_fps''),
          (''fixedFps'', JObj [(''dtMs'', JNum (Fin 17)), (''frames'', JArr [JObj []])])])))"
proof -
  have b: "live2d_timeline plain_engine c long_catalog_request
      = plan plain_engine c [stop_word] [] (JNum (Fin 60)) (replicate 280 ParamX @ [ParamAngleY])" for c
    by (simp add: live2d_timeline_def long_catalog_request_def js_or_def field_def parse_long_catalog)
  show ?thesis
    using plan_long_catalog by (simp add: b parse_long_catalog)
qed

end
